theory Spec2Isabelle
  imports Main "HOL-Library.AList" "HOL-Library.Multiset"
begin

section \<open>The dependency-injection container of \<open>optimized_spring_di.py\<close>\<close>

text \<open>
  The container is a Python class whose class attributes are the shared state and whose
  class methods are the operations.  The embedding passes that state explicitly.  Python
  classes (the component types) are identified by a number, and so is whatever else
  stands where the container expects a type (an annotation need not be a class).  What
  the container reads of such a value through \<open>inspect.signature\<close>, \<open>issubclass\<close>,
  the constructor call and the truth test of an instance is collected in a class table
  \<open>E\<close>, which every operation takes as its first argument.
\<close>

subsection \<open>Data\<close>

type_synonym ty = nat
type_synonym ref = nat

datatype Scope = SINGLETON | PROTOTYPE

text \<open>One parameter of \<open>__init__\<close> as \<open>inspect.signature\<close> lists it.\<close>

record param =
  pname :: string
  annotation :: "ty option"
  has_default :: bool

text \<open>
  What a value is to the builtin \<open>issubclass\<close>: an ordinary class; a class declared as
  \<open>typing.Protocol\<close> without \<open>runtime_checkable\<close>, which refuses class checks; or no
  class at all, as the string of a forward reference, which \<open>inspect.signature\<close> hands
  on as it is, or a subscripted generic.
\<close>

datatype tykind = PlainClass | UncheckedProtocol | NotAClass

text \<open>
  An entry of the class table: its kind, the parameters of its \<open>__init__\<close> (with the
  leading \<open>self\<close>), its proper superclasses, whether the body of \<open>__init__\<close> raises,
  how long the body runs (in ticks of \<open>time.perf_counter\<close>), and whether its instances
  are true in a condition (they are not when the class defines \<open>__bool__\<close> returning
  \<open>False\<close>, or \<open>__len__\<close> returning 0 as an empty container does).
\<close>

record pyclass =
  kind :: tykind
  init_params :: "param list"
  bases :: "ty list"
  init_raises :: bool
  init_time :: nat
  instance_truthy :: bool

datatype pyval = Ref ref | IntVal int

record obj =
  obj_class :: ty
  obj_attrs :: "(string \<times> pyval) list"

text \<open>
  The exceptions: the two of the module, the \<open>TypeError\<close> of a constructor call
  whose arguments do not fit the signature, whatever the body of a constructor raises
  itself, the \<open>TypeError\<close> of \<open>issubclass\<close> (with the argument it refuses), and the
  \<open>ValueError\<close> of \<open>list.index\<close>.
\<close>

datatype error =
    CircularDependencyError "ty list"
  | BeanNotFoundError ty
  | TypeError ty
  | InitError ty
  | SubclassTypeError ty
  | ValueError

text \<open>The dictionary stored per component in \<open>_component_configs\<close>.\<close>

record config =
  scope :: Scope
  primary :: bool
  instance_ref :: "ref option"

record metrics_rec =
  creation_count :: nat
  total_time :: nat

text \<open>
  The class attributes of \<open>OptimizedApplicationContext\<close>.  Python dictionaries keep
  insertion order, and \<open>_find_implementations\<close> depends on it, so they are association
  lists updated in place (\<open>AList.update\<close>).  \<open>analyze_memo\<close> is the table of the
  \<open>lru_cache\<close> around \<open>_analyze_dependencies\<close>, most recently used first.  \<open>heap\<close>
  holds the objects constructed so far (a reference is an index into it), \<open>ctor_calls\<close>
  logs every call \<open>component_type(**kwargs)\<close>, and \<open>clock\<close> is the reading of
  \<open>time.perf_counter\<close>.  The attributes \<open>_instances\<close> and \<open>_creation_stack\<close> are
  never read or written by any method and are left out.
\<close>

record ctx =
  component_configs :: "(ty \<times> config) list"
  dependency_cache :: "(ty \<times> (string \<times> ty) list) list"
  creation_order_cache :: "(ty \<times> ty list) list"
  analyze_memo :: "(ty \<times> (string \<times> ty) list) list"
  metrics :: "(ty \<times> metrics_rec) list"
  heap :: "obj list"
  ctor_calls :: "(ty \<times> (string \<times> ref) list) list"
  clock :: nat

definition empty_ctx :: ctx where
  "empty_ctx = \<lparr>component_configs = [], dependency_cache = [], creation_order_cache = [],
     analyze_memo = [], metrics = [], heap = [], ctor_calls = [], clock = 0\<rparr>"

subsection \<open>Registration and dependency analysis\<close>

text \<open>
  The builtin \<open>issubclass(c, i)\<close>.  It raises \<open>TypeError\<close> when \<open>c\<close> is no class, and
  when \<open>i\<close> is no class or a protocol that is not \<open>runtime_checkable\<close> (even for a
  class that names the protocol among its bases).
\<close>

definition issubclass :: "(ty \<Rightarrow> pyclass) \<Rightarrow> ty \<Rightarrow> ty \<Rightarrow> error + bool" where
  "issubclass E c i =
     (if kind (E c) = NotAClass then Inl (SubclassTypeError c)
      else if kind (E i) \<noteq> PlainClass then Inl (SubclassTypeError i)
      else Inr (c = i \<or> i \<in> set (bases (E c))))"

text \<open>The loop of \<open>_analyze_dependencies\<close> over \<open>signature.parameters.items()\<close>.\<close>

definition signature_dependencies :: "pyclass \<Rightarrow> (string \<times> ty) list" where
  "signature_dependencies c =
     fold (\<lambda>p deps. if pname p = ''self'' then deps
                     else (case annotation p of None \<Rightarrow> deps
                           | Some t \<Rightarrow> AList.update (pname p) t deps))
          (init_params c) []"

text \<open>The body of \<open>_analyze_dependencies\<close>, run on a miss of the \<open>lru_cache\<close>.\<close>

definition analyze_dependencies_body ::
  "(ty \<Rightarrow> pyclass) \<Rightarrow> ty \<Rightarrow> ctx \<Rightarrow> (string \<times> ty) list \<times> ctx" where
  "analyze_dependencies_body E component_type s =
     (case map_of (dependency_cache s) component_type of
        Some deps \<Rightarrow> (deps, s)
      | None \<Rightarrow>
          (let dependencies = signature_dependencies (E component_type)
           in (dependencies,
               s\<lparr>dependency_cache :=
                    AList.update component_type dependencies (dependency_cache s)\<rparr>)))"

text \<open>\<open>_analyze_dependencies\<close> behind \<open>lru_cache(maxsize=1000)\<close>.\<close>

definition analyze_dependencies ::
  "(ty \<Rightarrow> pyclass) \<Rightarrow> ty \<Rightarrow> ctx \<Rightarrow> (string \<times> ty) list \<times> ctx" where
  "analyze_dependencies E component_type s =
     (case map_of (analyze_memo s) component_type of
        Some deps \<Rightarrow>
          (deps, s\<lparr>analyze_memo :=
                     (component_type, deps) # AList.delete component_type (analyze_memo s)\<rparr>)
      | None \<Rightarrow>
          (case analyze_dependencies_body E component_type s of
             (deps, s') \<Rightarrow>
               (deps, s'\<lparr>analyze_memo :=
                           take 1000 ((component_type, deps) # analyze_memo s')\<rparr>)))"

definition register_component ::
  "(ty \<Rightarrow> pyclass) \<Rightarrow> ty \<Rightarrow> Scope \<Rightarrow> bool \<Rightarrow> ctx \<Rightarrow> ctx" where
  "register_component E component_type sc pr s =
     snd (analyze_dependencies E component_type
            (s\<lparr>component_configs :=
                 AList.update component_type
                   \<lparr>scope = sc, primary = pr, instance_ref = None\<rparr>
                   (component_configs s)\<rparr>))"

text \<open>
  \<open>_find_implementations\<close>: the loop over \<open>_component_configs.keys()\<close>, with the list
  built so far.  An exception of \<open>issubclass\<close> ends the loop and leaves the method.
\<close>

fun scan_implementations :: "(ty \<Rightarrow> pyclass) \<Rightarrow> ty \<Rightarrow> ty list \<Rightarrow> ty list \<Rightarrow> error + ty list" where
  "scan_implementations E interface_type [] implementations = Inr implementations"
| "scan_implementations E interface_type (component_type # rest) implementations =
     (case issubclass E component_type interface_type of
        Inl e \<Rightarrow> Inl e
      | Inr is_sub \<Rightarrow>
          scan_implementations E interface_type rest
            (if is_sub \<and> component_type \<noteq> interface_type
             then implementations @ [component_type] else implementations))"

definition find_implementations :: "(ty \<Rightarrow> pyclass) \<Rightarrow> ctx \<Rightarrow> ty \<Rightarrow> error + ty list" where
  "find_implementations E s interface_type =
     scan_implementations E interface_type (map fst (component_configs s)) []"

definition clear_cache :: "ctx \<Rightarrow> ctx" where
  "clear_cache s = s\<lparr>dependency_cache := [], creation_order_cache := [], analyze_memo := []\<rparr>"

definition get_metrics :: "ctx \<Rightarrow> (ty \<times> metrics_rec) list" where
  "get_metrics s = metrics s"

subsection \<open>Resolution\<close>

text \<open>
  The truth value of \<open>config['instance']\<close> in a condition: \<open>None\<close> is false, and an
  object is as its class makes it.  (A reference beyond the heap denotes no object.)
\<close>

definition truthy :: "(ty \<Rightarrow> pyclass) \<Rightarrow> obj list \<Rightarrow> ref option \<Rightarrow> bool" where
  "truthy E h v =
     (case v of
        None \<Rightarrow> False
      | Some r \<Rightarrow> r < length h \<and> instance_truthy (E (obj_class (h ! r))))"

text \<open>
  The call \<open>component_type(**kwargs)\<close>.  Python raises \<open>TypeError\<close> before the body
  of \<open>__init__\<close> runs when a parameter without default gets no argument or a keyword
  names no parameter.  Otherwise the body runs; when it does not raise, a new object
  exists, which is modelled as holding the injected references as attributes.
\<close>

definition construct ::
  "(ty \<Rightarrow> pyclass) \<Rightarrow> ty \<Rightarrow> (string \<times> ref) list \<Rightarrow> ctx \<Rightarrow> (error + ref) \<times> ctx" where
  "construct E component_type kwargs s =
     (let s1 = s\<lparr>ctor_calls := ctor_calls s @ [(component_type, kwargs)]\<rparr>;
          ps = filter (\<lambda>p. pname p \<noteq> ''self'') (init_params (E component_type))
      in if list_ex (\<lambda>p. \<not> has_default p \<and> pname p \<notin> set (map fst kwargs)) ps
            \<or> list_ex (\<lambda>k. k \<notin> set (map pname ps)) (map fst kwargs)
         then (Inl (TypeError component_type), s1)
         else if init_raises (E component_type)
         then (Inl (InitError component_type),
               s1\<lparr>clock := clock s1 + init_time (E component_type)\<rparr>)
         else (Inr (length (heap s1)),
               s1\<lparr>heap := heap s1 @ [\<lparr>obj_class = component_type,
                                       obj_attrs = map (\<lambda>(k, r). (k, Ref r)) kwargs\<rparr>],
                  clock := clock s1 + init_time (E component_type)\<rparr>))"

text \<open>
  Lines 97 to 106 of \<open>get_bean\<close>: the exact lookup, the fallback to the first
  implementation, and \<open>BeanNotFoundError\<close>.  The result is the rebound \<open>bean_type\<close>
  with its \<open>config\<close>, or the exception.
\<close>

definition lookup_config :: "(ty \<Rightarrow> pyclass) \<Rightarrow> ctx \<Rightarrow> ty \<Rightarrow> error + (ty \<times> config)" where
  "lookup_config E s bean_type =
     (case map_of (component_configs s) bean_type of
        Some config \<Rightarrow> Inr (bean_type, config)
      | None \<Rightarrow>
          (case find_implementations E s bean_type of
             Inl e \<Rightarrow> Inl e
           | Inr [] \<Rightarrow> Inl (BeanNotFoundError bean_type)
           | Inr (impl # _) \<Rightarrow>
               (case map_of (component_configs s) impl of
                  None \<Rightarrow> Inl (BeanNotFoundError impl)
                | Some config \<Rightarrow> Inr (impl, config))))"

text \<open>\<open>config['instance'] = instance\<close> on the dictionary stored under \<open>bean_type\<close>.\<close>

definition publish :: "ty \<Rightarrow> ref \<Rightarrow> ctx \<Rightarrow> ctx" where
  "publish bean_type r s =
     s\<lparr>component_configs :=
         AList.map_entry bean_type (\<lambda>c. c\<lparr>instance_ref := Some r\<rparr>) (component_configs s)\<rparr>"

text \<open>Lines 120 and 121; \<open>_metrics\<close> is a \<open>defaultdict\<close>.\<close>

definition record_metrics :: "ty \<Rightarrow> nat \<Rightarrow> ctx \<Rightarrow> ctx" where
  "record_metrics bean_type start_time s =
     (let m = (case map_of (metrics s) bean_type of
                 None \<Rightarrow> \<lparr>creation_count = 0, total_time = 0\<rparr>
               | Some m \<Rightarrow> m)
      in s\<lparr>metrics :=
             AList.update bean_type
               \<lparr>creation_count = creation_count m + 1,
                total_time = total_time m + (clock s - start_time)\<rparr>
               (metrics s)\<rparr>)"

text \<open>
  \<open>get_bean\<close>, \<open>_create_instance_optimized\<close> and the loop of the latter over
  \<open>dependencies_info.items()\<close>.  Nothing bounds the recursion in the source, so the
  functions take fuel, the depth of nested \<open>get_bean\<close> calls still allowed; \<open>None\<close>
  means that the fuel did not suffice.  An exception is \<open>Inl\<close>, and the state comes
  back in either case, since what was written before a raise stays written.
\<close>

fun get_bean ::
    "(ty \<Rightarrow> pyclass) \<Rightarrow> nat \<Rightarrow> ty \<Rightarrow> ty list \<Rightarrow> ctx \<Rightarrow> ((error + ref) \<times> ctx) option"
  and create_instance_optimized ::
    "(ty \<Rightarrow> pyclass) \<Rightarrow> nat \<Rightarrow> ty \<Rightarrow> ty list \<Rightarrow> ctx \<Rightarrow> ((error + ref) \<times> ctx) option"
  and resolve_dependencies ::
    "(ty \<Rightarrow> pyclass) \<Rightarrow> nat \<Rightarrow> (string \<times> ty) list \<Rightarrow> ty list \<Rightarrow> (string \<times> ref) list \<Rightarrow> ctx
       \<Rightarrow> ((error + (string \<times> ref) list) \<times> ctx) option"
where
  "get_bean E 0 bean_type creation_path s = None"
| "get_bean E (Suc n) bean_type creation_path s =
     (if bean_type \<in> set creation_path
      then Some (Inl (CircularDependencyError (creation_path @ [bean_type])), s)
      else
        (case lookup_config E s bean_type of
           Inl e \<Rightarrow> Some (Inl e, s)
         | Inr (bt, config) \<Rightarrow>
             (if scope config = SINGLETON \<and> truthy E (heap s) (instance_ref config)
              then Some (Inr (the (instance_ref config)), s)
              else
                (case create_instance_optimized E n bt (creation_path @ [bt]) s of
                   None \<Rightarrow> None
                 | Some (Inl e, s1) \<Rightarrow> Some (Inl e, s1)
                 | Some (Inr r, s1) \<Rightarrow>
                     Some (Inr r,
                           record_metrics bt (clock s)
                             (if scope config = SINGLETON then publish bt r s1 else s1))))))"
| "create_instance_optimized E n component_type creation_path s =
     (case map_of (dependency_cache s) component_type of
        None \<Rightarrow> Some (construct E component_type [] s)
      | Some dependencies_info \<Rightarrow>
          (if dependencies_info = [] then Some (construct E component_type [] s)
           else
             (case resolve_dependencies E n dependencies_info creation_path [] s of
                None \<Rightarrow> None
              | Some (Inl e, s1) \<Rightarrow> Some (Inl e, s1)
              | Some (Inr resolved_dependencies, s1) \<Rightarrow>
                  Some (construct E component_type resolved_dependencies s1))))"
| "resolve_dependencies E n [] creation_path resolved s = Some (Inr resolved, s)"
| "resolve_dependencies E n ((param_name, param_type) # rest) creation_path resolved s =
     (case get_bean E n param_type creation_path s of
        None \<Rightarrow> None
      | Some (Inl e, s1) \<Rightarrow> Some (Inl e, s1)
      | Some (Inr r, s1) \<Rightarrow>
          resolve_dependencies E n rest creation_path
            (AList.update param_name r resolved) s1)"

text \<open>
  Lines 108 to 123 of \<open>get_bean\<close> on their own, for the \<open>bean_type\<close> and \<open>config\<close>
  that the lookup has bound: what \<open>get_bean\<close> does once a descriptor is selected
  (lemma \<open>get_bean_Suc\<close> below).
\<close>

definition provide_instance ::
  "(ty \<Rightarrow> pyclass) \<Rightarrow> nat \<Rightarrow> ty \<Rightarrow> config \<Rightarrow> ty list \<Rightarrow> ctx \<Rightarrow> ((error + ref) \<times> ctx) option" where
  "provide_instance E n bean_type config creation_path s =
     (if scope config = SINGLETON \<and> truthy E (heap s) (instance_ref config)
      then Some (Inr (the (instance_ref config)), s)
      else
        (case create_instance_optimized E n bean_type (creation_path @ [bean_type]) s of
           None \<Rightarrow> None
         | Some (Inl e, s1) \<Rightarrow> Some (Inl e, s1)
         | Some (Inr r, s1) \<Rightarrow>
             Some (Inr r,
                   record_metrics bean_type (clock s)
                     (if scope config = SINGLETON then publish bean_type r s1 else s1))))"

subsection \<open>Static validation\<close>

text \<open>\<open>path.index(x)\<close>: the first position of \<open>x\<close>, or \<open>ValueError\<close>.\<close>

fun index_of :: "'a list \<Rightarrow> 'a \<Rightarrow> nat option" where
  "index_of [] x = None"
| "index_of (y # ys) x = (if y = x then Some 0 else map_option Suc (index_of ys x))"

text \<open>
  \<open>_detect_circular_dependencies\<close> and its loop over \<open>dependencies.values()\<close>.  The
  method returns nothing or raises, so the result is the exception, if any.  The loop
  hands \<open>visited.copy()\<close> and \<open>path.copy()\<close> to each recursive call, after the method
  has added \<open>component_type\<close> to both.
\<close>

function detect_circular_dependencies :: "ctx \<Rightarrow> ty \<Rightarrow> ty set \<Rightarrow> ty list \<Rightarrow> error option"
  and detect_loop :: "ctx \<Rightarrow> ty list \<Rightarrow> ty set \<Rightarrow> ty list \<Rightarrow> error option"
where
  "detect_circular_dependencies s component_type visited path =
     (if component_type \<in> visited
      then (case index_of path component_type of
              None \<Rightarrow> Some ValueError
            | Some cycle_start \<Rightarrow>
                Some (CircularDependencyError (drop cycle_start path @ [component_type])))
      else detect_loop s
             (map snd (case map_of (dependency_cache s) component_type of
                         None \<Rightarrow> [] | Some dependencies \<Rightarrow> dependencies))
             (insert component_type visited) (path @ [component_type]))"
| "detect_loop s [] visited path = None"
| "detect_loop s (param_type # rest) visited path =
     (if param_type \<in> set (map fst (component_configs s))
      then (case detect_circular_dependencies s param_type visited path of
              None \<Rightarrow> detect_loop s rest visited path
            | Some e \<Rightarrow> Some e)
      else detect_loop s rest visited path)"
  by pat_completeness auto

definition unvisited :: "ctx \<Rightarrow> ty set \<Rightarrow> nat" where
  "unvisited s visited = card (set (map fst (component_configs s)) - visited)"

lemma unvisited_insert:
  "c \<in> set (map fst (component_configs s)) \<Longrightarrow> c \<notin> visited \<Longrightarrow>
   unvisited s (insert c visited) < unvisited s visited"
  unfolding unvisited_def
  by (intro psubset_card_mono) auto

termination detect_circular_dependencies
proof (relation "measures
    [case_sum (\<lambda>(s, c, visited, path).
                  if c \<in> visited then 0 else 2 * unvisited s (insert c visited) + 2)
              (\<lambda>(s, ds, visited, path). 2 * unvisited s visited + 1),
     case_sum (\<lambda>_. 0) (\<lambda>(s, ds, visited, path). length ds)]", goal_cases)
  case 1
  then show ?case by simp
next
  case (2 s component_type visited path)
  then show ?case by simp
next
  case (3 s param_type rest visited path)
  then show ?case
    using unvisited_insert [of param_type s visited]
    by (cases "param_type \<in> visited") auto
next
  case (4 s param_type rest visited path)
  then show ?case by simp
next
  case (5 s param_type rest visited path)
  then show ?case by simp
qed

datatype issue = CircularIssue "ty list" | UnresolvedIssue ty ty

text \<open>
  The first loop of \<open>validate_configuration\<close>: only \<open>CircularDependencyError\<close> is
  caught there, any other exception leaves the method.
\<close>

fun validate_cycles :: "ctx \<Rightarrow> ty list \<Rightarrow> issue list \<Rightarrow> error + issue list" where
  "validate_cycles s [] issues = Inr issues"
| "validate_cycles s (component_type # rest) issues =
     (case detect_circular_dependencies s component_type {} [] of
        None \<Rightarrow> validate_cycles s rest issues
      | Some (CircularDependencyError cycle_path) \<Rightarrow>
          validate_cycles s rest (issues @ [CircularIssue cycle_path])
      | Some e \<Rightarrow> Inl e)"

text \<open>
  The second loop, over \<open>_dependency_cache.items()\<close>, and its inner loop over
  \<open>deps.items()\<close>, with the list of issues so far.  \<open>_find_implementations\<close> is called
  for a dependency without descriptor, and its exception is not caught.
\<close>

fun unresolved_dependencies ::
  "(ty \<Rightarrow> pyclass) \<Rightarrow> ctx \<Rightarrow> ty \<Rightarrow> (string \<times> ty) list \<Rightarrow> issue list \<Rightarrow> error + issue list" where
  "unresolved_dependencies E s component_type [] issues = Inr issues"
| "unresolved_dependencies E s component_type ((param_name, param_type) # rest) issues =
     (if param_type \<in> set (map fst (component_configs s))
      then unresolved_dependencies E s component_type rest issues
      else
        (case find_implementations E s param_type of
           Inl e \<Rightarrow> Inl e
         | Inr implementations \<Rightarrow>
             unresolved_dependencies E s component_type rest
               (if implementations = []
                then issues @ [UnresolvedIssue component_type param_type] else issues)))"

fun unresolved_components ::
  "(ty \<Rightarrow> pyclass) \<Rightarrow> ctx \<Rightarrow> (ty \<times> (string \<times> ty) list) list \<Rightarrow> issue list \<Rightarrow> error + issue list" where
  "unresolved_components E s [] issues = Inr issues"
| "unresolved_components E s ((component_type, deps) # rest) issues =
     (case unresolved_dependencies E s component_type deps issues of
        Inl e \<Rightarrow> Inl e
      | Inr issues' \<Rightarrow> unresolved_components E s rest issues')"

text \<open>
  \<open>validate_configuration\<close>.  It returns the issues or raises; the state comes back with
  the result, as for \<open>get_bean\<close>.
\<close>

definition validate_configuration :: "(ty \<Rightarrow> pyclass) \<Rightarrow> ctx \<Rightarrow> (error + issue list) \<times> ctx" where
  "validate_configuration E s =
     (case validate_cycles s (map fst (component_configs s)) [] of
        Inl e \<Rightarrow> (Inl e, s)
      | Inr issues \<Rightarrow>
          (case unresolved_components E s (dependency_cache s) issues of
             Inl e \<Rightarrow> (Inl e, s)
           | Inr issues' \<Rightarrow> (Inr issues', s)))"

section \<open>The container of \<open>spring_di.py\<close>\<close>

text \<open>
  The class attributes of \<open>ApplicationContext\<close> (the dictionary \<open>_components\<close> is
  never used), with the objects constructed so far and the log of constructor calls.
  \<open>_lock\<close> is a \<open>threading.Lock\<close>, which is not re-entrant: \<open>app_lock_held\<close> says
  whether it is taken.
\<close>

record app_ctx =
  app_component_configs :: "(ty \<times> config) list"
  app_lock_held :: bool
  app_heap :: "obj list"
  app_ctor_calls :: "(ty \<times> (string \<times> ref) list) list"

text \<open>
  Every method starts with \<open>with cls._lock\<close>.  Taking a lock that is held blocks; in
  one thread nothing will ever release it, so the method does not return (\<open>None\<close>).
\<close>

definition app_register_component :: "ty \<Rightarrow> Scope \<Rightarrow> bool \<Rightarrow> app_ctx \<Rightarrow> app_ctx option" where
  "app_register_component component_type sc pr s =
     (if app_lock_held s then None
      else Some (s\<lparr>app_component_configs :=
                     AList.update component_type
                       \<lparr>scope = sc, primary = pr, instance_ref = None\<rparr>
                       (app_component_configs s)\<rparr>))"

text \<open>\<open>_find_implementations\<close>: the test is \<open>interface_type in component_type.__mro__\<close>.\<close>

definition app_find_implementations :: "(ty \<Rightarrow> pyclass) \<Rightarrow> app_ctx \<Rightarrow> ty \<Rightarrow> ty list" where
  "app_find_implementations E s interface_type =
     filter (\<lambda>component_type. interface_type \<in> set (component_type # bases (E component_type)))
            (map fst (app_component_configs s))"

text \<open>Lines 47 to 56 of \<open>get_bean\<close>; the exception is a \<open>ValueError\<close>.\<close>

definition app_lookup_config :: "(ty \<Rightarrow> pyclass) \<Rightarrow> app_ctx \<Rightarrow> ty \<Rightarrow> error + (ty \<times> config)" where
  "app_lookup_config E s bean_type =
     (case map_of (app_component_configs s) bean_type of
        Some config \<Rightarrow> Inr (bean_type, config)
      | None \<Rightarrow>
          (case app_find_implementations E s bean_type of
             [] \<Rightarrow> Inl ValueError
           | impl # _ \<Rightarrow>
               (case map_of (app_component_configs s) impl of
                  None \<Rightarrow> Inl ValueError
                | Some config \<Rightarrow> Inr (impl, config))))"

definition app_construct ::
  "(ty \<Rightarrow> pyclass) \<Rightarrow> ty \<Rightarrow> (string \<times> ref) list \<Rightarrow> app_ctx \<Rightarrow> (error + ref) \<times> app_ctx" where
  "app_construct E component_type kwargs s =
     (let s1 = s\<lparr>app_ctor_calls := app_ctor_calls s @ [(component_type, kwargs)]\<rparr>;
          ps = filter (\<lambda>p. pname p \<noteq> ''self'') (init_params (E component_type))
      in if list_ex (\<lambda>p. \<not> has_default p \<and> pname p \<notin> set (map fst kwargs)) ps
            \<or> list_ex (\<lambda>k. k \<notin> set (map pname ps)) (map fst kwargs)
         then (Inl (TypeError component_type), s1)
         else if init_raises (E component_type)
         then (Inl (InitError component_type), s1)
         else (Inr (length (app_heap s1)),
               s1\<lparr>app_heap := app_heap s1 @ [\<lparr>obj_class = component_type,
                                       obj_attrs = map (\<lambda>(k, r). (k, Ref r)) kwargs\<rparr>]\<rparr>))"

definition app_publish :: "ty \<Rightarrow> ref \<Rightarrow> app_ctx \<Rightarrow> app_ctx" where
  "app_publish bean_type r s =
     s\<lparr>app_component_configs :=
         AList.map_entry bean_type (\<lambda>c. c\<lparr>instance_ref := Some r\<rparr>)
           (app_component_configs s)\<rparr>"

text \<open>
  \<open>get_bean\<close>, \<open>_create_instance\<close> and the loop of the latter over
  \<open>signature.parameters.items()\<close>.  \<open>_create_instance\<close> runs inside the \<open>with\<close>
  block of \<open>get_bean\<close>, so with the lock held, and the lock is released when the block
  is left, by \<open>return\<close> or by an exception.
\<close>

fun app_get_bean ::
    "(ty \<Rightarrow> pyclass) \<Rightarrow> nat \<Rightarrow> ty \<Rightarrow> app_ctx \<Rightarrow> ((error + ref) \<times> app_ctx) option"
  and app_create_instance ::
    "(ty \<Rightarrow> pyclass) \<Rightarrow> nat \<Rightarrow> ty \<Rightarrow> app_ctx \<Rightarrow> ((error + ref) \<times> app_ctx) option"
  and app_inject ::
    "(ty \<Rightarrow> pyclass) \<Rightarrow> nat \<Rightarrow> param list \<Rightarrow> (string \<times> ref) list \<Rightarrow> app_ctx
       \<Rightarrow> ((error + (string \<times> ref) list) \<times> app_ctx) option"
where
  "app_get_bean E 0 bean_type s = None"
| "app_get_bean E (Suc n) bean_type s =
     (if app_lock_held s then None
      else
        (case app_lookup_config E s bean_type of
           Inl e \<Rightarrow> Some (Inl e, s)
         | Inr (bt, config) \<Rightarrow>
             (if scope config = SINGLETON \<and> truthy E (app_heap s) (instance_ref config)
              then Some (Inr (the (instance_ref config)), s)
              else
                (case app_create_instance E n bt (s\<lparr>app_lock_held := True\<rparr>) of
                   None \<Rightarrow> None
                 | Some (Inl e, s1) \<Rightarrow> Some (Inl e, s1\<lparr>app_lock_held := False\<rparr>)
                 | Some (Inr r, s1) \<Rightarrow>
                     Some (Inr r,
                           (if scope config = SINGLETON then app_publish bt r s1 else s1)
                             \<lparr>app_lock_held := False\<rparr>)))))"
| "app_create_instance E n component_type s =
     (case app_inject E n (init_params (E component_type)) [] s of
        None \<Rightarrow> None
      | Some (Inl e, s1) \<Rightarrow> Some (Inl e, s1)
      | Some (Inr dependencies, s1) \<Rightarrow> Some (app_construct E component_type dependencies s1))"
| "app_inject E n [] dependencies s = Some (Inr dependencies, s)"
| "app_inject E n (p # rest) dependencies s =
     (if pname p = ''self'' then app_inject E n rest dependencies s
      else
        (case annotation p of
           None \<Rightarrow> app_inject E n rest dependencies s
         | Some param_type \<Rightarrow>
             (case app_get_bean E n param_type s of
                None \<Rightarrow> None
              | Some (Inl e, s1) \<Rightarrow> Some (Inl e, s1)
              | Some (Inr r, s1) \<Rightarrow>
                  app_inject E n rest (AList.update (pname p) r dependencies) s1)))"

section \<open>States, predicates and samples\<close>

subsection \<open>How resolution changes the state\<close>

text \<open>
  What a call of \<open>get_bean\<close> may change: it never touches the caches, keeps the keys
  of the registry in their order, keeps scope and primary flag of every descriptor, keeps
  the instance of a prototype descriptor and a stored instance that is true in a
  condition, and only adds to the heap and to the log of constructor calls.
\<close>

definition evolves :: "(ty \<Rightarrow> pyclass) \<Rightarrow> ctx \<Rightarrow> ctx \<Rightarrow> bool" where
  "evolves E s s' \<longleftrightarrow>
     dependency_cache s' = dependency_cache s
     \<and> creation_order_cache s' = creation_order_cache s
     \<and> analyze_memo s' = analyze_memo s
     \<and> map fst (component_configs s') = map fst (component_configs s)
     \<and> (\<forall>k c. map_of (component_configs s) k = Some c \<longrightarrow>
           (\<exists>c'. map_of (component_configs s') k = Some c'
                 \<and> scope c' = scope c \<and> primary c' = primary c
                 \<and> (scope c = PROTOTYPE \<or> truthy E (heap s) (instance_ref c)
                      \<longrightarrow> instance_ref c' = instance_ref c)))
     \<and> (\<exists>objs. heap s' = heap s @ objs)
     \<and> (\<exists>calls. ctor_calls s' = ctor_calls s @ calls)
     \<and> clock s \<le> clock s'"

text \<open>
  A singleton is published when its descriptor holds an instance that the guard of
  \<open>get_bean\<close> accepts.  \<open>later E T s s'\<close>: the state \<open>s'\<close> is reached from \<open>s\<close> by
  any number of resolutions (of any type, on any path, with any outcome), validations
  and registrations of types other than \<open>T\<close>.
\<close>

definition published :: "(ty \<Rightarrow> pyclass) \<Rightarrow> ctx \<Rightarrow> ty \<Rightarrow> ref \<Rightarrow> bool" where
  "published E s t r \<longleftrightarrow>
     (case map_of (component_configs s) t of
        None \<Rightarrow> False
      | Some c \<Rightarrow> scope c = SINGLETON \<and> instance_ref c = Some r
                  \<and> truthy E (heap s) (Some r))"

inductive later :: "(ty \<Rightarrow> pyclass) \<Rightarrow> ty \<Rightarrow> ctx \<Rightarrow> ctx \<Rightarrow> bool" for E :: "ty \<Rightarrow> pyclass" and T :: ty where
  later_now: "later E T s s"
| later_get_bean:
    "later E T s s1 \<Longrightarrow> get_bean E n t p s1 = Some (res, s2) \<Longrightarrow> later E T s s2"
| later_validate:
    "later E T s s1 \<Longrightarrow> validate_configuration E s1 = (issues, s2) \<Longrightarrow> later E T s s2"
| later_register:
    "later E T s s1 \<Longrightarrow> t \<noteq> T \<Longrightarrow> later E T s (register_component E t sc pr s1)"

text \<open>The same for the container of \<open>spring_di.py\<close>.\<close>

definition app_published :: "(ty \<Rightarrow> pyclass) \<Rightarrow> app_ctx \<Rightarrow> ty \<Rightarrow> ref \<Rightarrow> bool" where
  "app_published E s t r \<longleftrightarrow>
     (case map_of (app_component_configs s) t of
        None \<Rightarrow> False
      | Some c \<Rightarrow> scope c = SINGLETON \<and> instance_ref c = Some r
                  \<and> truthy E (app_heap s) (Some r))"

inductive app_later :: "(ty \<Rightarrow> pyclass) \<Rightarrow> app_ctx \<Rightarrow> app_ctx \<Rightarrow> bool" for E :: "ty \<Rightarrow> pyclass" where
  app_later_now: "app_later E s s"
| app_later_get_bean:
    "app_later E s s1 \<Longrightarrow> app_get_bean E n t s1 = Some (res, s2) \<Longrightarrow> app_later E s s2"

text \<open>
  The outcomes of \<open>_detect_circular_dependencies\<close> that \<open>validate_configuration\<close>
  survives: a normal return, and the exception that it catches.
\<close>

definition no_other_error :: "error option \<Rightarrow> bool" where
  "no_other_error r = (case r of None \<Rightarrow> True | Some (CircularDependencyError _) \<Rightarrow> True
                        | Some _ \<Rightarrow> False)"




subsection \<open>The tie-break policy of the specification\<close>

text \<open>
  Section 4.3 of the specification, in its words, over the implementations of a
  capability in registration order: exactly one marked primary is selected; with none
  marked primary the first is selected; more than one marked primary is the
  configuration error \<open>AmbiguousCapability\<close>.
\<close>

datatype selection = Selected ty | AmbiguousCapability ty "ty list" | NoImplementation

definition is_primary :: "ctx \<Rightarrow> ty \<Rightarrow> bool" where
  "is_primary s t = (case map_of (component_configs s) t of None \<Rightarrow> False | Some c \<Rightarrow> primary c)"

definition tie_break_policy :: "ctx \<Rightarrow> ty \<Rightarrow> ty list \<Rightarrow> selection" where
  "tie_break_policy s capability implementations =
     (case filter (is_primary s) implementations of
        [p] \<Rightarrow> Selected p
      | [] \<Rightarrow> (case implementations of [] \<Rightarrow> NoImplementation | i # _ \<Rightarrow> Selected i)
      | primaries \<Rightarrow> AmbiguousCapability capability primaries)"

subsection \<open>Sample classes and registries\<close>

text \<open>
  Classes in the style of the repository's tests, used to run the model: a repository
  (0) and a service that needs it (1); a service without dependencies (2); a store
  whose instances are false in a condition, as an empty container is (3); two services
  that need each other (10, 11); a service (12) that needs a class nobody registers
  (13); an interface (20) with three implementations (21, 22, 23); an implementation
  (31) of an interface (30) whose constructor asks for that interface; a service (40)
  that needs a service whose constructor raises (41) and then a class nobody registers
  (42); a service (50) whose dependency on the repository has a default value; a
  service (61) whose annotation is the string of a forward reference (60); and a
  protocol that is not \<open>runtime_checkable\<close> (70) with a class that names it as base (71).
\<close>

definition plain_class :: pyclass where
  "plain_class =
     \<lparr>kind = PlainClass,
      init_params = [\<lparr>pname = ''self'', annotation = None, has_default = False\<rparr>],
      bases = [], init_raises = False, init_time = 1, instance_truthy = True\<rparr>"

definition needs :: "string \<Rightarrow> ty \<Rightarrow> pyclass" where
  "needs x t =
     plain_class\<lparr>init_params :=
       [\<lparr>pname = ''self'', annotation = None, has_default = False\<rparr>,
        \<lparr>pname = x, annotation = Some t, has_default = False\<rparr>]\<rparr>"

definition demo_classes :: "ty \<Rightarrow> pyclass" where
  "demo_classes t =
     (if t = 1 then needs ''repo'' 0
      else if t = 2 then plain_class
      else if t = 3 then plain_class\<lparr>instance_truthy := False\<rparr>
      else if t = 10 then needs ''b'' 11
      else if t = 11 then needs ''a'' 10
      else if t = 12 then needs ''d'' 13
      else if t = 21 then plain_class\<lparr>bases := [20]\<rparr>
      else if t = 22 then plain_class\<lparr>bases := [20]\<rparr>
      else if t = 23 then plain_class\<lparr>bases := [20]\<rparr>
      else if t = 31 then (needs ''c'' 30)\<lparr>bases := [30]\<rparr>
      else if t = 40 then
        plain_class\<lparr>init_params :=
          [\<lparr>pname = ''self'', annotation = None, has_default = False\<rparr>,
           \<lparr>pname = ''x'', annotation = Some 41, has_default = False\<rparr>,
           \<lparr>pname = ''y'', annotation = Some 42, has_default = False\<rparr>]\<rparr>
      else if t = 41 then plain_class\<lparr>init_raises := True\<rparr>
      else if t = 50 then
        plain_class\<lparr>init_params :=
          [\<lparr>pname = ''self'', annotation = None, has_default = False\<rparr>,
           \<lparr>pname = ''repo'', annotation = Some 0, has_default = True\<rparr>]\<rparr>
      else if t = 60 then plain_class\<lparr>kind := NotAClass\<rparr>
      else if t = 61 then needs ''service_b'' 60
      else if t = 70 then plain_class\<lparr>kind := UncheckedProtocol\<rparr>
      else if t = 71 then plain_class\<lparr>bases := [70]\<rparr>
      else plain_class)"

definition registry_of :: "(ty \<times> Scope \<times> bool) list \<Rightarrow> ctx" where
  "registry_of rs =
     fold (\<lambda>(t, sc, pr). register_component demo_classes t sc pr) rs empty_ctx"

definition chain_registry :: ctx where
  "chain_registry = registry_of [(0, SINGLETON, False), (1, SINGLETON, False)]"

definition cyclic_registry :: ctx where
  "cyclic_registry =
     registry_of [(10, SINGLETON, False), (11, SINGLETON, False), (12, SINGLETON, False)]"

definition primary_registry :: ctx where
  "primary_registry = registry_of [(21, SINGLETON, False), (22, SINGLETON, True)]"

definition ambiguous_registry :: ctx where
  "ambiguous_registry = registry_of [(22, SINGLETON, True), (23, SINGLETON, True)]"

definition looping_registry :: ctx where
  "looping_registry = registry_of [(31, SINGLETON, False)]"


definition falsy_registry :: ctx where
  "falsy_registry = registry_of [(3, SINGLETON, False)]"



definition forward_registry :: ctx where
  "forward_registry = registry_of [(61, SINGLETON, False)]"

definition protocol_registry :: ctx where
  "protocol_registry = registry_of [(71, SINGLETON, False)]"

text \<open>
  States written out: \<open>registry_state\<close> takes the descriptors, the dependency maps (the
  memo table holds them too, most recent first), the metrics, the heap, the log of
  constructor calls and the clock; \<open>fresh_registry\<close> is a registry as
  \<open>register_component\<close> leaves it, with nothing constructed; \<open>unset\<close> is a descriptor
  without instance and \<open>holding\<close> one with an instance.
\<close>

definition registry_state ::
  "(ty \<times> config) list \<Rightarrow> (ty \<times> (string \<times> ty) list) list \<Rightarrow> (ty \<times> metrics_rec) list
     \<Rightarrow> obj list \<Rightarrow> (ty \<times> (string \<times> ref) list) list \<Rightarrow> nat \<Rightarrow> ctx" where
  "registry_state configs deps ms h calls t =
     \<lparr>component_configs = configs, dependency_cache = deps, creation_order_cache = [],
      analyze_memo = rev deps, metrics = ms, heap = h, ctor_calls = calls, clock = t\<rparr>"

definition fresh_registry ::
  "(ty \<times> config) list \<Rightarrow> (ty \<times> (string \<times> ty) list) list \<Rightarrow> ctx" where
  "fresh_registry configs deps = registry_state configs deps [] [] [] 0"

definition unset :: "Scope \<Rightarrow> bool \<Rightarrow> config" where
  "unset sc pr = \<lparr>scope = sc, primary = pr, instance_ref = None\<rparr>"

definition holding :: "Scope \<Rightarrow> bool \<Rightarrow> ref \<Rightarrow> config" where
  "holding sc pr r = \<lparr>scope = sc, primary = pr, instance_ref = Some r\<rparr>"

definition created :: "nat \<Rightarrow> nat \<Rightarrow> metrics_rec" where
  "created k t = \<lparr>creation_count = k, total_time = t\<rparr>"

definition object :: "ty \<Rightarrow> (string \<times> pyval) list \<Rightarrow> obj" where
  "object t attrs = \<lparr>obj_class = t, obj_attrs = attrs\<rparr>"

definition chain_resolved :: ctx where
  "chain_resolved =
     registry_state
       [(0, holding SINGLETON False 0), (1, holding SINGLETON False 1)]
       [(0, []), (1, [(''repo'', 0)])]
       [(0, created 1 1), (1, created 1 2)]
       [object 0 [], object 1 [(''repo'', Ref 0)]]
       [(0, []), (1, [(''repo'', 0)])] 2"

definition primary_resolved :: ctx where
  "primary_resolved =
     registry_state
       [(21, holding SINGLETON False 0), (22, unset SINGLETON True)]
       [(21, []), (22, [])]
       [(21, created 1 1)] [object 21 []] [(21, [])] 1"

definition ambiguous_resolved :: ctx where
  "ambiguous_resolved =
     registry_state
       [(22, holding SINGLETON True 0), (23, unset SINGLETON True)]
       [(22, []), (23, [])]
       [(22, created 1 1)] [object 22 []] [(22, [])] 1"



definition falsy_once :: ctx where
  "falsy_once =
     registry_state [(3, holding SINGLETON False 0)] [(3, [])]
       [(3, created 1 1)] [object 3 []] [(3, [])] 1"

definition falsy_twice :: ctx where
  "falsy_twice =
     registry_state [(3, holding SINGLETON False 1)] [(3, [])]
       [(3, created 2 2)] [object 3 [], object 3 []] [(3, []), (3, [])] 2"



text \<open>A class table in which everything is an ordinary class.\<close>

definition plain_table :: "ty \<Rightarrow> pyclass" where
  "plain_table t = (demo_classes t)\<lparr>kind := PlainClass\<rparr>"

text \<open>States of the container of \<open>spring_di.py\<close>, with the lock free.\<close>

definition app_state ::
  "(ty \<times> config) list \<Rightarrow> obj list \<Rightarrow> (ty \<times> (string \<times> ref) list) list \<Rightarrow> app_ctx" where
  "app_state configs h calls =
     \<lparr>app_component_configs = configs, app_lock_held = False, app_heap = h,
      app_ctor_calls = calls\<rparr>"

section \<open>Properties\<close>

subsection \<open>The scan for implementations\<close>

lemma scan_implementations_Inr:
  "scan_implementations E i ks acc = Inr impls \<Longrightarrow>
   impls = acc @ filter (\<lambda>c. issubclass E c i = Inr True \<and> c \<noteq> i) ks"
proof (induction ks arbitrary: acc)
  case Nil
  then show ?case by simp
next
  case (Cons k ks)
  show ?case
  proof (cases "issubclass E k i")
    case (Inl e)
    with Cons.prems show ?thesis by simp
  next
    case (Inr b)
    show ?thesis
    proof (cases "b \<and> k \<noteq> i")
      case True
      with Cons.prems Inr have "scan_implementations E i ks (acc @ [k]) = Inr impls" by simp
      from Cons.IH[OF this] True Inr show ?thesis by simp
    next
      case False
      with Cons.prems Inr have "scan_implementations E i ks acc = Inr impls" by simp
      from Cons.IH[OF this] False Inr show ?thesis by auto
    qed
  qed
qed

lemma find_implementations_Inr:
  "find_implementations E s i = Inr impls \<Longrightarrow>
   impls = filter (\<lambda>c. issubclass E c i = Inr True \<and> c \<noteq> i) (map fst (component_configs s))"
  using scan_implementations_Inr[of E i "map fst (component_configs s)" "[]" impls]
  by (simp add: find_implementations_def)

lemma find_implementations_registered:
  assumes "find_implementations E s t = Inr (impl # others)"
  shows "map_of (component_configs s) impl \<noteq> None"
proof -
  have "impl \<in> set (impl # others)" by simp
  then have "impl \<in> set (map fst (component_configs s))"
    unfolding find_implementations_Inr[OF assms] by simp
  then show ?thesis by (simp add: map_of_eq_None_iff)
qed


lemma scan_implementations_plain:
  assumes "\<forall>t. kind (E t) = PlainClass"
  shows "\<exists>impls. scan_implementations E i ks acc = Inr impls"
  using assms by (induction ks arbitrary: acc) (auto simp: issubclass_def)

subsection \<open>The frame of resolution\<close>

declare create_instance_optimized.simps [simp del]

lemma get_bean_Suc:
  "get_bean E (Suc n) bean_type creation_path s =
     (if bean_type \<in> set creation_path
      then Some (Inl (CircularDependencyError (creation_path @ [bean_type])), s)
      else (case lookup_config E s bean_type of
              Inl e \<Rightarrow> Some (Inl e, s)
            | Inr (bt, config) \<Rightarrow> provide_instance E n bt config creation_path s))"
  by (simp add: provide_instance_def split: sum.splits)

declare get_bean.simps(2) [simp del]

lemma provide_instance_cached:
  "scope config = SINGLETON \<Longrightarrow> truthy E (heap s) (instance_ref config) \<Longrightarrow>
   provide_instance E n bt config p s = Some (Inr (the (instance_ref config)), s)"
  by (simp add: provide_instance_def)

lemma provide_instance_create:
  "\<not> (scope config = SINGLETON \<and> truthy E (heap s) (instance_ref config)) \<Longrightarrow>
   provide_instance E n bt config p s =
     (case create_instance_optimized E n bt (p @ [bt]) s of
        None \<Rightarrow> None
      | Some (Inl e, s1) \<Rightarrow> Some (Inl e, s1)
      | Some (Inr r, s1) \<Rightarrow>
          Some (Inr r, record_metrics bt (clock s)
                         (if scope config = SINGLETON then publish bt r s1 else s1)))"
  by (auto simp: provide_instance_def)

lemma truthy_append: "truthy E h v \<Longrightarrow> truthy E (h @ objs) v"
  by (auto simp: truthy_def nth_append split: option.splits)

lemma evolves_refl: "evolves E s s"
  by (simp add: evolves_def)

lemma evolves_config:
  assumes "evolves E s s1" and "map_of (component_configs s) k = Some c"
  shows "\<exists>c'. map_of (component_configs s1) k = Some c'
    \<and> scope c' = scope c \<and> primary c' = primary c
    \<and> (scope c = PROTOTYPE \<or> truthy E (heap s) (instance_ref c)
         \<longrightarrow> instance_ref c' = instance_ref c)"
  using assms unfolding evolves_def by blast

lemma evolves_heap: "evolves E s s' \<Longrightarrow> \<exists>objs. heap s' = heap s @ objs"
  by (simp add: evolves_def)

lemma evolves_truthy:
  assumes "evolves E s s'" and "truthy E (heap s) v"
  shows "truthy E (heap s') v"
  using evolves_heap[OF assms(1)] truthy_append[OF assms(2)] by auto

lemma evolves_trans:
  assumes "evolves E s s1" and "evolves E s1 s2"
  shows "evolves E s s2"
proof -
  have cfg: "\<exists>c'. map_of (component_configs s2) k = Some c'
                 \<and> scope c' = scope c \<and> primary c' = primary c
                 \<and> (scope c = PROTOTYPE \<or> truthy E (heap s) (instance_ref c)
                      \<longrightarrow> instance_ref c' = instance_ref c)"
    if k: "map_of (component_configs s) k = Some c" for k c
  proof -
    from evolves_config[OF assms(1) k] obtain c1 where
      c1: "map_of (component_configs s1) k = Some c1"
      "scope c1 = scope c" "primary c1 = primary c"
      "scope c = PROTOTYPE \<or> truthy E (heap s) (instance_ref c)
         \<longrightarrow> instance_ref c1 = instance_ref c"
      by blast
    from evolves_config[OF assms(2) c1(1)] obtain c2 where
      c2: "map_of (component_configs s2) k = Some c2"
      "scope c2 = scope c1" "primary c2 = primary c1"
      "scope c1 = PROTOTYPE \<or> truthy E (heap s1) (instance_ref c1)
         \<longrightarrow> instance_ref c2 = instance_ref c1"
      by blast
    have "instance_ref c2 = instance_ref c"
      if "scope c = PROTOTYPE \<or> truthy E (heap s) (instance_ref c)"
    proof -
      from that c1(4) have eq: "instance_ref c1 = instance_ref c" by simp
      from that have "scope c1 = PROTOTYPE \<or> truthy E (heap s1) (instance_ref c1)"
        using c1(2) eq evolves_truthy[OF assms(1)] by auto
      with c2(4) have "instance_ref c2 = instance_ref c1" by blast
      with eq show ?thesis by simp
    qed
    with c1 c2 show ?thesis by auto
  qed
  from assms have "\<exists>objs. heap s2 = heap s @ objs" "\<exists>calls. ctor_calls s2 = ctor_calls s @ calls"
    unfolding evolves_def by auto
  with assms cfg show ?thesis
    unfolding evolves_def by (intro conjI allI impI) (auto)
qed

lemma construct_evolves: "construct E t kwargs s = (res, s') \<Longrightarrow> evolves E s s'"
  by (auto simp: construct_def evolves_def Let_def split: if_splits)

lemma record_metrics_evolves: "evolves E s s1 \<Longrightarrow> evolves E s (record_metrics bt st s1)"
  by (simp add: record_metrics_def evolves_def Let_def)

lemma map_of_map_entry_same:
  "map_of (AList.map_entry k f al) k' = (if k' = k then map_option f (map_of al k) else map_of al k')"
  by (induction al) auto

lemma map_fst_map_entry: "map fst (AList.map_entry k f al) = map fst al"
  by (induction al) auto

lemma publish_evolves:
  assumes ev: "evolves E s s1" and bt: "map_of (component_configs s) bt = Some config"
    and none: "\<not> truthy E (heap s) (instance_ref config)" and sc: "scope config = SINGLETON"
  shows "evolves E s (publish bt r s1)"
proof -
  have cfg: "\<exists>c'. map_of (component_configs (publish bt r s1)) k = Some c'
                 \<and> scope c' = scope c \<and> primary c' = primary c
                 \<and> (scope c = PROTOTYPE \<or> truthy E (heap s) (instance_ref c)
                      \<longrightarrow> instance_ref c' = instance_ref c)"
    if k: "map_of (component_configs s) k = Some c" for k c
  proof -
    from evolves_config[OF ev k] obtain c1 where c1: "map_of (component_configs s1) k = Some c1"
      "scope c1 = scope c" "primary c1 = primary c"
      "scope c = PROTOTYPE \<or> truthy E (heap s) (instance_ref c)
         \<longrightarrow> instance_ref c1 = instance_ref c"
      by blast
    show ?thesis
    proof (cases "k = bt")
      case True
      with k bt have "c = config" by simp
      with True c1 none sc show ?thesis
        by (simp add: publish_def map_of_map_entry_same)
    next
      case False
      with c1 show ?thesis
        by (auto simp add: publish_def map_of_map_entry_same)
    qed
  qed
  from ev have rest: "dependency_cache (publish bt r s1) = dependency_cache s"
    "creation_order_cache (publish bt r s1) = creation_order_cache s"
    "analyze_memo (publish bt r s1) = analyze_memo s"
    "map fst (component_configs (publish bt r s1)) = map fst (component_configs s)"
    "\<exists>objs. heap (publish bt r s1) = heap s @ objs"
    "\<exists>calls. ctor_calls (publish bt r s1) = ctor_calls s @ calls"
    "clock s \<le> clock (publish bt r s1)"
    unfolding evolves_def publish_def by (simp_all add: map_fst_map_entry)
  show ?thesis
    unfolding evolves_def using rest cfg by blast
qed

lemma lookup_config_Inr:
  "lookup_config E s t = Inr (bt, config) \<Longrightarrow> map_of (component_configs s) bt = Some config"
  by (auto simp: lookup_config_def split: option.splits list.splits sum.splits)

lemma lookup_config_registered:
  "map_of (component_configs s) t = Some c \<Longrightarrow> lookup_config E s t = Inr (t, c)"
  by (simp add: lookup_config_def)

lemma provide_instance_evolves:
  assumes cr: "\<And>res s'. create_instance_optimized E n bt (p @ [bt]) s = Some (res, s')
                 \<Longrightarrow> evolves E s s'"
    and cfg: "map_of (component_configs s) bt = Some config"
    and call: "provide_instance E n bt config p s = Some (res, s')"
  shows "evolves E s s'"
proof (cases "scope config = SINGLETON \<and> truthy E (heap s) (instance_ref config)")
  case True
  with call show ?thesis by (simp add: provide_instance_cached evolves_refl)
next
  case nocache: False
  note step = provide_instance_create[OF nocache, of n bt p]
  show ?thesis
  proof (cases "create_instance_optimized E n bt (p @ [bt]) s")
    case None
    with call step show ?thesis by simp
  next
    case (Some a)
    obtain out s1 where a: "a = (out, s1)" by (cases a)
    have ev: "evolves E s s1" using cr[OF Some[unfolded a]] .
    show ?thesis
    proof (cases out)
      case (Inl e)
      with call step Some a ev show ?thesis by simp
    next
      case (Inr r)
      have "evolves E s (if scope config = SINGLETON then publish bt r s1 else s1)"
        using ev publish_evolves[OF ev cfg] nocache by auto
      then have "evolves E s (record_metrics bt (clock s)
                   (if scope config = SINGLETON then publish bt r s1 else s1))"
        by (rule record_metrics_evolves)
      with call step Some a Inr show ?thesis by simp
    qed
  qed
qed

lemma get_bean_evolves:
  "get_bean E n t p s = Some (res, s') \<Longrightarrow> evolves E s s'"
  "create_instance_optimized E n t p s = Some (res, s') \<Longrightarrow> evolves E s s'"
  "resolve_dependencies E n ds p acc s = Some (res2, s') \<Longrightarrow> evolves E s s'"
proof (induction E n t p s and E n t p s and E n ds p acc s
       arbitrary: res s' and res s' and res2 s'
       rule: get_bean_create_instance_optimized_resolve_dependencies.induct)
  case (1 E bean_type creation_path s)
  then show ?case by simp
next
  case (2 E n bean_type creation_path s)
  show ?case
  proof (cases "bean_type \<in> set creation_path")
    case True
    with "2.prems" show ?thesis by (simp add: get_bean_Suc evolves_refl)
  next
    case notin: False
    show ?thesis
    proof (cases "lookup_config E s bean_type")
      case (Inl e)
      with "2.prems" notin show ?thesis by (simp add: get_bean_Suc evolves_refl)
    next
      case (Inr pr)
      obtain bt config where pr: "pr = (bt, config)" by (cases pr)
      note lk = Inr[unfolded pr]
      from "2.prems" notin lk have call: "provide_instance E n bt config creation_path s
        = Some (res, s')" by (simp add: get_bean_Suc)
      show ?thesis
      proof (cases "scope config = SINGLETON \<and> truthy E (heap s) (instance_ref config)")
        case True
        with call show ?thesis by (simp add: provide_instance_cached evolves_refl)
      next
        case nocache: False
        show ?thesis
          by (rule provide_instance_evolves[OF _ lookup_config_Inr[OF lk] call])
             (rule "2.IH"[OF notin lk refl nocache])
      qed
    qed
  qed
next
  case (3 E n component_type creation_path s)
  show ?case
  proof (cases "map_of (dependency_cache s) component_type")
    case None
    with "3.prems" show ?thesis
      by (auto simp: create_instance_optimized.simps intro: construct_evolves)
  next
    case (Some deps)
    show ?thesis
    proof (cases "deps = []")
      case True
      with "3.prems" Some show ?thesis
        by (auto simp: create_instance_optimized.simps intro: construct_evolves)
    next
      case False
      show ?thesis
      proof (cases "resolve_dependencies E n deps creation_path [] s")
        case None
        with "3.prems" Some False show ?thesis by (simp add: create_instance_optimized.simps)
      next
        case rs: (Some a)
        obtain out s1 where a: "a = (out, s1)" by (cases a)
        have ev: "evolves E s s1" using "3.IH"[OF Some False rs[unfolded a]] .
        show ?thesis
        proof (cases out)
          case (Inl e)
          with "3.prems" Some False rs a ev show ?thesis
            by (simp add: create_instance_optimized.simps)
        next
          case (Inr kw)
          with "3.prems" Some False rs a have "construct E component_type kw s1 = (res, s')"
            by (simp add: create_instance_optimized.simps)
          from evolves_trans[OF ev construct_evolves[OF this]] show ?thesis .
        qed
      qed
    qed
  qed
next
  case (4 E n creation_path resolved s)
  then show ?case by (simp add: evolves_refl)
next
  case (5 E n param_name param_type rest creation_path resolved s)
  show ?case
  proof (cases "get_bean E n param_type creation_path s")
    case None
    with "5.prems" show ?thesis by simp
  next
    case (Some a)
    obtain out s1 where a: "a = (out, s1)" by (cases a)
    have ev: "evolves E s s1" using "5.IH"(1)[OF Some[unfolded a]] .
    show ?thesis
    proof (cases out)
      case (Inl e)
      with "5.prems" Some a ev show ?thesis by simp
    next
      case (Inr r)
      with "5.prems" Some a have
        "resolve_dependencies E n rest creation_path (AList.update param_name r resolved) s1
           = Some (res2, s')" by simp
      from evolves_trans[OF ev "5.IH"(2)[OF Some[unfolded a] refl Inr this]] show ?thesis .
    qed
  qed
qed

lemma construct_fresh:
  assumes "construct E t kwargs s = (Inr r, s')"
  shows "r = length (heap s) \<and> length (heap s') = Suc (length (heap s))
         \<and> obj_class (heap s' ! r) = t"
  using assms by (auto simp: construct_def Let_def split: if_splits)

lemma create_instance_fresh:
  assumes "create_instance_optimized E n t p s = Some (Inr r, s')"
  shows "length (heap s) \<le> r \<and> r < length (heap s') \<and> obj_class (heap s' ! r) = t"
proof -
  have direct: ?thesis if "construct E t [] s = (Inr r, s')"
    using construct_fresh[OF that] by auto
  show ?thesis
  proof (cases "map_of (dependency_cache s) t")
    case None
    with assms direct show ?thesis by (simp add: create_instance_optimized.simps)
  next
    case (Some deps)
    show ?thesis
    proof (cases "deps = []")
      case True
      with assms Some direct show ?thesis by (simp add: create_instance_optimized.simps)
    next
      case False
      with assms Some obtain kw s1 where
        rs: "resolve_dependencies E n deps p [] s = Some (Inr kw, s1)"
        and c: "construct E t kw s1 = (Inr r, s')"
        by (auto simp: create_instance_optimized.simps split: option.splits sum.splits)
      from evolves_heap[OF get_bean_evolves(3)[OF rs]] construct_fresh[OF c]
      show ?thesis by auto
    qed
  qed
qed

subsection \<open>The sample registries, evaluated\<close>

lemmas registry_defs =
  registry_of_def register_component_def analyze_dependencies_def
  analyze_dependencies_body_def signature_dependencies_def empty_ctx_def demo_classes_def
  needs_def plain_class_def fresh_registry_def registry_state_def unset_def Let_def

lemmas resolution_defs =
  get_bean_Suc provide_instance_def create_instance_optimized.simps lookup_config_def
  find_implementations_def issubclass_def truthy_def construct_def publish_def
  record_metrics_def demo_classes_def needs_def plain_class_def
  fresh_registry_def registry_state_def unset_def holding_def created_def object_def Let_def

lemma chain_registry_eq:
  "chain_registry =
     fresh_registry [(0, unset SINGLETON False), (1, unset SINGLETON False)]
       [(0, []), (1, [(''repo'', 0)])]"
  by (simp add: chain_registry_def registry_defs)

lemma cyclic_registry_eq:
  "cyclic_registry =
     fresh_registry
       [(10, unset SINGLETON False), (11, unset SINGLETON False), (12, unset SINGLETON False)]
       [(10, [(''b'', 11)]), (11, [(''a'', 10)]), (12, [(''d'', 13)])]"
  by (simp add: cyclic_registry_def registry_defs)

lemma primary_registry_eq:
  "primary_registry =
     fresh_registry [(21, unset SINGLETON False), (22, unset SINGLETON True)]
       [(21, []), (22, [])]"
  by (simp add: primary_registry_def registry_defs)

lemma ambiguous_registry_eq:
  "ambiguous_registry =
     fresh_registry [(22, unset SINGLETON True), (23, unset SINGLETON True)]
       [(22, []), (23, [])]"
  by (simp add: ambiguous_registry_def registry_defs)

lemma looping_registry_eq:
  "looping_registry = fresh_registry [(31, unset SINGLETON False)] [(31, [(''c'', 30)])]"
  by (simp add: looping_registry_def registry_defs)


lemma falsy_registry_eq:
  "falsy_registry = fresh_registry [(3, unset SINGLETON False)] [(3, [])]"
  by (simp add: falsy_registry_def registry_defs)



lemma forward_registry_eq:
  "forward_registry =
     fresh_registry [(61, unset SINGLETON False)] [(61, [(''service_b'', 60)])]"
  by (simp add: forward_registry_def registry_defs)

lemma protocol_registry_eq:
  "protocol_registry = fresh_registry [(71, unset SINGLETON False)] [(71, [])]"
  by (simp add: protocol_registry_def registry_defs)

lemma chain_resolution:
  "get_bean demo_classes (Suc (Suc 0)) 1 [] chain_registry = Some (Inr 1, chain_resolved)"
  by (simp add: chain_registry_eq chain_resolved_def resolution_defs)

lemma primary_resolution:
  "get_bean demo_classes (Suc 0) 20 [] primary_registry = Some (Inr 0, primary_resolved)"
  by (simp add: primary_registry_eq primary_resolved_def resolution_defs)

lemma ambiguous_resolution:
  "get_bean demo_classes (Suc 0) 20 [] ambiguous_registry = Some (Inr 0, ambiguous_resolved)"
  by (simp add: ambiguous_registry_eq ambiguous_resolved_def resolution_defs)

lemma missing_resolution:
  "get_bean demo_classes (Suc (Suc 0)) 12 [] cyclic_registry
     = Some (Inl (BeanNotFoundError 13), cyclic_registry)"
  by (simp add: cyclic_registry_eq resolution_defs)



lemma falsy_first:
  "get_bean demo_classes (Suc 0) 3 [] falsy_registry = Some (Inr 0, falsy_once)"
  by (simp add: falsy_registry_eq falsy_once_def resolution_defs)

lemma falsy_second:
  "get_bean demo_classes (Suc 0) 3 [] falsy_once = Some (Inr 1, falsy_twice)"
  by (simp add: falsy_once_def falsy_twice_def resolution_defs)



text \<open>
  Types that \<open>issubclass\<close> refuses.  A service annotated with the string of a forward
  reference, and a request for a protocol that is not \<open>runtime_checkable\<close>, end in the
  \<open>TypeError\<close> of \<open>issubclass\<close>, raised by the scan of a registry that is not empty;
  so does the validation of the registry with the forward reference.
\<close>

lemma forward_reference_resolution:
  "get_bean demo_classes (Suc (Suc 0)) 61 [] forward_registry
     = Some (Inl (SubclassTypeError 60), forward_registry)"
  by (simp add: forward_registry_eq resolution_defs)

lemma protocol_resolution:
  "get_bean demo_classes (Suc 0) 70 [] protocol_registry
     = Some (Inl (SubclassTypeError 70), protocol_registry)"
  by (simp add: protocol_registry_eq resolution_defs)

lemma forward_reference_validation:
  "validate_configuration demo_classes forward_registry
     = (Inl (SubclassTypeError 60), forward_registry)"
  by (simp add: validate_configuration_def forward_registry_eq resolution_defs)

subsection \<open>Singletons\<close>

lemma published_evolves:
  assumes "evolves E s s'" and "published E s t r"
  shows "published E s' t r"
proof -
  from assms(2) obtain c where c: "map_of (component_configs s) t = Some c"
    "scope c = SINGLETON" "instance_ref c = Some r" "truthy E (heap s) (Some r)"
    by (auto simp: published_def split: option.splits)
  from evolves_config[OF assms(1) c(1)] c(2,3,4) evolves_truthy[OF assms(1) c(4)]
  show ?thesis by (auto simp: published_def)
qed

lemma validate_configuration_state: "snd (validate_configuration E s) = s"
  by (simp add: validate_configuration_def split: sum.splits)

lemma analyze_dependencies_configs:
  "component_configs (snd (analyze_dependencies E t s)) = component_configs s"
  by (simp add: analyze_dependencies_def analyze_dependencies_body_def Let_def
           split: option.splits prod.splits)

lemma analyze_dependencies_heap:
  "heap (snd (analyze_dependencies E t s)) = heap s"
  by (simp add: analyze_dependencies_def analyze_dependencies_body_def Let_def
           split: option.splits prod.splits)

lemma published_register:
  assumes "published E s T r" and "t \<noteq> T"
  shows "published E (register_component E t sc pr s) T r"
  using assms
  by (auto simp: published_def register_component_def analyze_dependencies_configs
        analyze_dependencies_heap update_conv' split: option.splits)

lemma published_later:
  assumes "later E T s s'" and "published E s T r"
  shows "published E s' T r"
  using assms
proof (induction rule: later.induct)
  case (later_now s)
  then show ?case .
next
  case (later_get_bean s s1 n t p res s2)
  then show ?case using get_bean_evolves(1) published_evolves by blast
next
  case (later_validate s s1 issues s2)
  then show ?case using validate_configuration_state[of E s1] by simp
next
  case (later_register s s1 t sc pr)
  then show ?case by (simp add: published_register)
qed

lemma published_get_bean:
  assumes "published E s T r"
  shows "get_bean E (Suc m) T [] s = Some (Inr r, s)"
  using assms
  by (auto simp: published_def get_bean_Suc lookup_config_def provide_instance_def
           split: option.splits)

lemma publish_published:
  assumes "map_of (component_configs s) t = Some c" and "scope c = SINGLETON"
    and "truthy E (heap s) (Some r)"
  shows "published E (record_metrics t st (publish t r s)) t r"
  using assms
  by (simp add: published_def record_metrics_def publish_def Let_def map_of_map_entry_same)

lemma get_bean_publishes:
  assumes reg: "map_of (component_configs s) T = Some cfg" and sc: "scope cfg = SINGLETON"
    and tr: "instance_truthy (E T)"
    and call: "get_bean E n T [] s = Some (Inr r, s1)"
  shows "published E s1 T r"
proof -
  from call obtain k where n: "n = Suc k" by (cases n) auto
  from call n reg have pi: "provide_instance E k T cfg [] s = Some (Inr r, s1)"
    by (simp add: get_bean_Suc lookup_config_registered)
  show ?thesis
  proof (cases "truthy E (heap s) (instance_ref cfg)")
    case False
    then have nc: "\<not> (scope cfg = SINGLETON \<and> truthy E (heap s) (instance_ref cfg))" by simp
    from pi[unfolded provide_instance_create[OF nc]] sc obtain s' where
      cr: "create_instance_optimized E k T ([] @ [T]) s = Some (Inr r, s')"
      and s1: "s1 = record_metrics T (clock s) (publish T r s')"
      by (auto split: option.splits sum.splits prod.splits)
    from evolves_config[OF get_bean_evolves(2)[OF cr] reg] sc obtain c' where
      c': "map_of (component_configs s') T = Some c'" "scope c' = SINGLETON" by auto
    from create_instance_fresh[OF cr] tr have "truthy E (heap s') (Some r)"
      by (simp add: truthy_def)
    with c' show ?thesis unfolding s1 by (rule publish_published)
  next
    case True
    with pi sc have "s1 = s" "instance_ref cfg = Some r"
      by (auto simp: provide_instance_cached truthy_def split: option.splits)
    with True reg sc show ?thesis by (simp add: published_def)
  qed
qed

text \<open>
  What the code does for a singleton whose instances are true in a condition, as plain
  objects are: the instance that a call of \<open>get_bean\<close> has returned is the one that
  every later call returns, in every state reached without registering the type again.
\<close>

lemma singleton_stable_if_truthy:
  assumes "map_of (component_configs s) T = Some cfg" and "scope cfg = SINGLETON"
    and "instance_truthy (E T)"
    and "get_bean E n T [] s = Some (Inr r, s1)"
    and "later E T s1 s2"
  shows "get_bean E (Suc m) T [] s2 = Some (Inr r, s2)"
  by (rule published_get_bean, rule published_later[OF assms(5)],
      rule get_bean_publishes[OF assms(1-4)])

text \<open>
  Claim C1 is right and the code breaks it.  The cached instance is returned under the
  condition \<open>config['scope'] == Scope.SINGLETON and config['instance']\<close>, which asks
  for the truth value of the instance where it means its presence.  For the store 3,
  registered as a singleton, whose instances are false in a condition, the first
  \<open>get_bean\<close> constructs object 0 and stores it in the descriptor; the second finds it
  there, constructs object 1 all the same, stores that one and returns it: two calls,
  two instances, and two creations in the metrics.
\<close>

theorem falsy_singleton_rebuilt:
  "map_of (component_configs falsy_registry) 3 = Some (unset SINGLETON False)
   \<and> get_bean demo_classes (Suc 0) 3 [] falsy_registry = Some (Inr 0, falsy_once)
   \<and> map_of (component_configs falsy_once) 3 = Some (holding SINGLETON False 0)
   \<and> get_bean demo_classes (Suc 0) 3 [] falsy_once = Some (Inr 1, falsy_twice)
   \<and> map_of (component_configs falsy_twice) 3 = Some (holding SINGLETON False 1)
   \<and> map_of (metrics falsy_twice) 3 = Some (created 2 2)
   \<and> (0::nat) \<noteq> 1"
  using falsy_first falsy_second
  by (simp add: falsy_registry_eq falsy_once_def falsy_twice_def fresh_registry_def
        registry_state_def)

subsection \<open>Singletons and prototypes in the container of \<open>spring_di.py\<close>\<close>

text \<open>
  A nested \<open>get_bean\<close> finds the lock taken by the call it is nested in.  So in one
  thread a resolution returns only for a component without annotated constructor
  parameters, and then singletons and prototypes behave as in the optimized container;
  the guard of the cached instance is the same truth test.
\<close>

declare app_create_instance.simps [simp del]

lemma app_get_bean_blocked: "app_lock_held s \<Longrightarrow> app_get_bean E n t s = None"
  by (cases n) simp_all

lemma app_inject_locked:
  assumes "app_lock_held s"
  shows "app_inject E n ps deps s =
           (if list_ex (\<lambda>p. pname p \<noteq> ''self'' \<and> annotation p \<noteq> None) ps then None
            else Some (Inr deps, s))"
  using assms
  by (induction ps) (auto simp: app_get_bean_blocked split: option.splits)

lemma app_create_instance_locked:
  assumes "app_lock_held s"
  shows "app_create_instance E n t s =
           (if list_ex (\<lambda>p. pname p \<noteq> ''self'' \<and> annotation p \<noteq> None) (init_params (E t))
            then None else Some (app_construct E t [] s))"
  by (simp add: app_create_instance.simps app_inject_locked[OF assms])

lemma app_construct_frame:
  assumes "app_construct E t kwargs s = (res, s')"
  shows "app_component_configs s' = app_component_configs s
       \<and> app_lock_held s' = app_lock_held s
       \<and> (\<exists>objs. app_heap s' = app_heap s @ objs)"
  using assms by (auto simp: app_construct_def Let_def split: if_splits)

lemma app_construct_fresh:
  assumes "app_construct E t kwargs s = (Inr r, s')"
  shows "r = length (app_heap s) \<and> length (app_heap s') = Suc (length (app_heap s))
         \<and> obj_class (app_heap s' ! r) = t"
  using assms by (auto simp: app_construct_def Let_def split: if_splits)

lemma app_get_bean_unlocked:
  assumes "app_get_bean E n t s = Some (res, s')"
  shows "\<not> app_lock_held s \<and> \<not> app_lock_held s'"
proof -
  from assms obtain k where n: "n = Suc k" by (cases n) auto
  from assms n have nl: "\<not> app_lock_held s" by (auto split: if_splits)
  have "\<not> app_lock_held s'"
    using assms nl unfolding n
    by (auto split: sum.splits if_splits option.splits prod.splits)
  with nl show ?thesis by simp
qed

lemma app_published_kept:
  assumes call: "app_get_bean E n u s = Some (res, s')" and pub: "app_published E s T r"
  shows "app_published E s' T r"
proof -
  from call obtain k where n: "n = Suc k" by (cases n) auto
  from call n have nl: "\<not> app_lock_held s" by (auto split: if_splits)
  show ?thesis
  proof (cases "app_lookup_config E s u")
    case (Inl e)
    with call n nl pub show ?thesis by simp
  next
    case (Inr pr)
    obtain bt config where pr: "pr = (bt, config)" by (cases pr)
    have cfg: "map_of (app_component_configs s) bt = Some config"
      using Inr pr by (auto simp: app_lookup_config_def split: option.splits list.splits)
    show ?thesis
    proof (cases "scope config = SINGLETON \<and> truthy E (app_heap s) (instance_ref config)")
      case True
      with call n nl Inr pr pub show ?thesis by auto
    next
      case False
      have lk: "app_lock_held (s\<lparr>app_lock_held := True\<rparr>)" by simp
      note cr = app_create_instance_locked[OF lk, of E k bt]
      from call n nl Inr pr False obtain out s1 where
        c: "app_construct E bt [] (s\<lparr>app_lock_held := True\<rparr>) = (out, s1)"
        and s': "s' = s1\<lparr>app_lock_held := False\<rparr> \<or>
                 (\<exists>r'. out = Inr r' \<and> scope config = SINGLETON
                    \<and> s' = (app_publish bt r' s1)\<lparr>app_lock_held := False\<rparr>)"
        by (auto simp: cr split: if_splits sum.splits prod.splits)
      from app_construct_frame[OF c] obtain objs where same:
        "app_component_configs s1 = app_component_configs s"
        "app_heap s1 = app_heap s @ objs" by auto
      from pub cfg False have "bt \<noteq> T"
        by (auto simp: app_published_def)
      moreover from pub have "truthy E (app_heap s) (Some r)"
        by (auto simp: app_published_def split: option.splits)
      then have "truthy E (app_heap s1) (Some r)"
        unfolding same(2) by (rule truthy_append)
      ultimately show ?thesis using s' same(1) pub
        by (auto simp: app_published_def app_publish_def map_of_map_entry_same
                 split: option.splits)
    qed
  qed
qed

lemma app_get_bean_publishes:
  assumes reg: "map_of (app_component_configs s) T = Some cfg" and sc: "scope cfg = SINGLETON"
    and tr: "instance_truthy (E T)"
    and call: "app_get_bean E n T s = Some (Inr r, s1)"
  shows "app_published E s1 T r"
proof -
  from call obtain k where n: "n = Suc k" by (cases n) auto
  from call n have nl: "\<not> app_lock_held s" by (auto split: if_splits)
  have lkp: "app_lookup_config E s T = Inr (T, cfg)"
    using reg by (simp add: app_lookup_config_def)
  show ?thesis
  proof (cases "truthy E (app_heap s) (instance_ref cfg)")
    case False
    have lk: "app_lock_held (s\<lparr>app_lock_held := True\<rparr>)" by simp
    note cr = app_create_instance_locked[OF lk, of E k T]
    from call n nl lkp False sc obtain s' where
      c: "app_construct E T [] (s\<lparr>app_lock_held := True\<rparr>) = (Inr r, s')"
      and s1: "s1 = (app_publish T r s')\<lparr>app_lock_held := False\<rparr>"
      by (auto simp: cr split: if_splits sum.splits prod.splits)
    from app_construct_frame[OF c] reg have "map_of (app_component_configs s') T = Some cfg"
      by simp
    moreover from app_construct_fresh[OF c] tr have "truthy E (app_heap s') (Some r)"
      by (auto simp: truthy_def)
    ultimately show ?thesis using sc unfolding s1
      by (simp add: app_published_def app_publish_def map_of_map_entry_same)
  next
    case True
    with call n nl lkp sc reg show ?thesis
      by (auto simp: app_published_def truthy_def split: option.splits)
  qed
qed

lemma app_published_get_bean:
  assumes "app_published E s T r" and "\<not> app_lock_held s"
  shows "app_get_bean E (Suc m) T s = Some (Inr r, s)"
  using assms
  by (auto simp: app_published_def app_lookup_config_def split: option.splits)

lemma app_published_later:
  assumes "app_later E s s'" and "app_published E s T r \<and> \<not> app_lock_held s"
  shows "app_published E s' T r \<and> \<not> app_lock_held s'"
  using assms
proof (induction rule: app_later.induct)
  case (app_later_now s)
  then show ?case .
next
  case (app_later_get_bean s s1 n t res s2)
  then show ?case using app_published_kept app_get_bean_unlocked by blast
qed

lemma app_singleton_stable_if_truthy:
  assumes "map_of (app_component_configs s) T = Some cfg" and "scope cfg = SINGLETON"
    and "instance_truthy (E T)"
    and "app_get_bean E n T s = Some (Inr r, s1)"
    and "app_later E s1 s2"
  shows "app_get_bean E (Suc m) T s2 = Some (Inr r, s2)"
proof -
  from app_get_bean_publishes[OF assms(1-4)] app_get_bean_unlocked[OF assms(4)]
  have "app_published E s1 T r \<and> \<not> app_lock_held s1" by simp
  from app_published_later[OF assms(5) this]
  have "app_published E s2 T r" and "\<not> app_lock_held s2" by simp_all
  then show ?thesis by (rule app_published_get_bean)
qed

lemma app_prototype_independence:
  assumes reg: "map_of (app_component_configs s) T = Some cfg" and sc: "scope cfg = PROTOTYPE"
    and first: "app_get_bean E n T s = Some (Inr r1, s1)"
    and second: "app_get_bean E m T s1 = Some (Inr r2, s2)"
  shows "r1 \<noteq> r2 \<and> r1 = length (app_heap s) \<and> r2 = length (app_heap s1)
         \<and> app_component_configs s2 = app_component_configs s"
proof -
  have step: "r = length (app_heap s0) \<and> length (app_heap s') = Suc (length (app_heap s0))
              \<and> app_component_configs s' = app_component_configs s0"
    if reg0: "map_of (app_component_configs s0) T = Some cfg"
      and call: "app_get_bean E k T s0 = Some (Inr r, s')" for k s0 r s'
  proof -
    from call obtain j where k: "k = Suc j" by (cases k) auto
    from call k have nl: "\<not> app_lock_held s0" by (auto split: if_splits)
    have lkp: "app_lookup_config E s0 T = Inr (T, cfg)"
      using reg0 by (simp add: app_lookup_config_def)
    have lk: "app_lock_held (s0\<lparr>app_lock_held := True\<rparr>)" by simp
    note cr = app_create_instance_locked[OF lk, of E j T]
    from call k nl lkp sc obtain sx where
      c: "app_construct E T [] (s0\<lparr>app_lock_held := True\<rparr>) = (Inr r, sx)"
      and s': "s' = sx\<lparr>app_lock_held := False\<rparr>"
      by (auto simp: cr split: if_splits sum.splits prod.splits)
    from app_construct_fresh[OF c] app_construct_frame[OF c] show ?thesis
      unfolding s' by simp
  qed
  note a = step[OF reg first]
  from a reg have reg1: "map_of (app_component_configs s1) T = Some cfg" by simp
  note b = step[OF reg1 second]
  from a b show ?thesis by simp
qed

text \<open>
  The store 3 of the samples in this container: registered as a singleton, it is
  constructed by the first \<open>get_bean\<close> and again by the second.
\<close>

lemma app_falsy_singleton_rebuilt:
  "app_register_component 3 SINGLETON False (app_state [] [] [])
     = Some (app_state [(3, unset SINGLETON False)] [] [])
   \<and> app_get_bean demo_classes (Suc 0) 3 (app_state [(3, unset SINGLETON False)] [] [])
       = Some (Inr 0, app_state [(3, holding SINGLETON False 0)] [object 3 []] [(3, [])])
   \<and> app_get_bean demo_classes (Suc 0) 3
         (app_state [(3, holding SINGLETON False 0)] [object 3 []] [(3, [])])
       = Some (Inr 1, app_state [(3, holding SINGLETON False 1)] [object 3 [], object 3 []]
                        [(3, []), (3, [])])"
  by (simp add: app_register_component_def app_state_def app_lookup_config_def
        app_create_instance.simps app_construct_def app_publish_def truthy_def
        demo_classes_def plain_class_def unset_def holding_def object_def Let_def)

subsection \<open>Cycle rejection\<close>

text \<open>
  Claim C2.  When the requested type is already on the creation path, \<open>get_bean\<close>
  raises \<open>CircularDependencyError\<close> with the path extended by the requested type, in
  the order of the path, at any depth of recursion still allowed; the state is the one
  it was called in, so no constructor has been called (the log of constructor calls and
  the heap are unchanged) and nothing has been published or counted.
\<close>

theorem cycle_rejected_before_construction:
  assumes "bean_type \<in> set creation_path"
  shows "get_bean E (Suc n) bean_type creation_path s =
           Some (Inl (CircularDependencyError (creation_path @ [bean_type])), s)"
  using assms by (simp add: get_bean_Suc)

theorem cycle_rejected_before_construction_witness:
  "(10::nat) \<in> set [10, 11] \<and>
   get_bean demo_classes (Suc 0) 10 [10, 11] cyclic_registry =
     Some (Inl (CircularDependencyError [10, 11, 10]), cyclic_registry)"
  using cycle_rejected_before_construction [of 10 "[10, 11]" demo_classes 0 cyclic_registry]
  by simp

text \<open>
  The test of the specification for cycle rejection: two registered types without
  instance, each with the other as its only dependency.  A top-level \<open>get_bean\<close> ends
  in \<open>CircularDependencyError\<close> with both types on the reported path, in the state it
  started in: neither constructor has been called.
\<close>

lemma mutual_pair_rejected:
  assumes "map_of (component_configs s) a = Some ca" and "instance_ref ca = None"
    and "map_of (component_configs s) b = Some cb" and "instance_ref cb = None"
    and "map_of (dependency_cache s) a = Some [(x, b)]"
    and "map_of (dependency_cache s) b = Some [(y, a)]"
    and "a \<noteq> b"
  shows "get_bean E (Suc (Suc (Suc n))) a [] s
           = Some (Inl (CircularDependencyError [a, b, a]), s)"
  using assms
  by (simp add: get_bean_Suc lookup_config_def provide_instance_def truthy_def
        create_instance_optimized.simps)

subsection \<open>Missing beans\<close>

lemma scan_implementations_Inl:
  "scan_implementations E i ks acc = Inl e \<Longrightarrow> \<exists>u. e = SubclassTypeError u"
proof (induction ks arbitrary: acc)
  case Nil
  then show ?case by simp
next
  case (Cons k ks)
  show ?case
  proof (cases "issubclass E k i")
    case (Inl e')
    with Cons.prems show ?thesis by (auto simp: issubclass_def split: if_splits)
  next
    case (Inr b)
    with Cons.prems Cons.IH show ?thesis by auto
  qed
qed











subsection \<open>Capabilities\<close>

text \<open>
  Claim C3 fails on the code.  With the implementations 21 (not primary) and 22
  (primary) registered in this order, the policy of the specification selects 22, and
  \<open>get_bean\<close> for the interface 20 constructs and returns an object of class 21.  With
  22 and 23 both primary, the policy asks for \<open>AmbiguousCapability\<close>, and \<open>get_bean\<close>
  returns an object of class 22.
\<close>

theorem capability_tie_break_counterexample:
  "find_implementations demo_classes primary_registry 20 = Inr [21, 22]
   \<and> tie_break_policy primary_registry 20 [21, 22] = Selected 22
   \<and> lookup_config demo_classes primary_registry 20 = Inr (21, unset SINGLETON False)
   \<and> get_bean demo_classes (Suc 0) 20 [] primary_registry = Some (Inr 0, primary_resolved)
   \<and> obj_class (heap primary_resolved ! 0) = 21
   \<and> find_implementations demo_classes ambiguous_registry 20 = Inr [22, 23]
   \<and> tie_break_policy ambiguous_registry 20 [22, 23] = AmbiguousCapability 20 [22, 23]
   \<and> get_bean demo_classes (Suc 0) 20 [] ambiguous_registry = Some (Inr 0, ambiguous_resolved)
   \<and> obj_class (heap ambiguous_resolved ! 0) = 22"
  using primary_resolution ambiguous_resolution
  by (simp add: tie_break_policy_def is_primary_def lookup_config_def find_implementations_def
        issubclass_def demo_classes_def plain_class_def needs_def
        primary_registry_eq ambiguous_registry_eq primary_resolved_def ambiguous_resolved_def
        fresh_registry_def registry_state_def unset_def holding_def object_def)

text \<open>
  Claim C3 as amended.  Let \<open>get_bean\<close> be called for a type \<open>t\<close> with no
  descriptor, and let the scan of the registry return implementations.  Then the first
  of them, which is the first registered type that \<open>issubclass\<close> accepts as a proper
  subclass of \<open>t\<close>, is selected, whatever the primary flags are: the lookup binds that
  implementation and its descriptor, and \<open>get_bean\<close> goes on with them, at top level as
  in a nested request, on any path (a path that holds \<open>t\<close> itself is a cycle).  Where
  no implementation is marked primary, this is the selection of the policy.  No primary
  flag is read and no \<open>AmbiguousCapability\<close> is raised.
\<close>

theorem capability_first_implementation:
  assumes "map_of (component_configs s) t = None"
    and "find_implementations E s t = Inr (impl # others)"
  shows "\<exists>config. map_of (component_configs s) impl = Some config
           \<and> lookup_config E s t = Inr (impl, config)
           \<and> get_bean E (Suc n) t p s =
               (if t \<in> set p
                then Some (Inl (CircularDependencyError (p @ [t])), s)
                else provide_instance E n impl config p s)
           \<and> impl # others =
               filter (\<lambda>c. issubclass E c t = Inr True \<and> c \<noteq> t)
                 (map fst (component_configs s))
           \<and> (filter (is_primary s) (impl # others) = []
                \<longrightarrow> tie_break_policy s t (impl # others) = Selected impl)"
proof -
  from find_implementations_registered[OF assms(2)] obtain config where
    c: "map_of (component_configs s) impl = Some config" by auto
  with assms have lk: "lookup_config E s t = Inr (impl, config)"
    by (simp add: lookup_config_def)
  have gb: "get_bean E (Suc n) t p s =
               (if t \<in> set p
                then Some (Inl (CircularDependencyError (p @ [t])), s)
                else provide_instance E n impl config p s)"
    by (simp add: get_bean_Suc lk)
  have pol: "filter (is_primary s) (impl # others) = []
                \<longrightarrow> tie_break_policy s t (impl # others) = Selected impl"
    by (simp add: tie_break_policy_def)
  from c lk gb find_implementations_Inr[OF assms(2)] pol show ?thesis by blast
qed

theorem capability_first_implementation_witness:
  "map_of (component_configs primary_registry) 20 = None
   \<and> find_implementations demo_classes primary_registry 20 = Inr (21 # [22])
   \<and> lookup_config demo_classes primary_registry 20 = Inr (21, unset SINGLETON False)
   \<and> get_bean demo_classes (Suc 0) 20 [] primary_registry
       = provide_instance demo_classes 0 21 (unset SINGLETON False) [] primary_registry"
proof -
  have a: "map_of (component_configs primary_registry) 20 = None"
    by (simp add: primary_registry_eq fresh_registry_def registry_state_def)
  have b: "find_implementations demo_classes primary_registry 20 = Inr (21 # [22])"
    by (simp add: primary_registry_eq resolution_defs)
  have c: "map_of (component_configs primary_registry) 21 = Some (unset SINGLETON False)"
    by (simp add: primary_registry_eq fresh_registry_def registry_state_def)
  from capability_first_implementation [OF a b, of 0 "[]"] obtain config where
    "map_of (component_configs primary_registry) 21 = Some config"
    "lookup_config demo_classes primary_registry 20 = Inr (21, config)"
    "get_bean demo_classes (Suc 0) 20 [] primary_registry
       = provide_instance demo_classes 0 21 config [] primary_registry"
    by auto
  with a b c show ?thesis by simp
qed

text \<open>
  Claim C9.  Let a type \<open>cap\<close> have no descriptor, let its first implementation
  \<open>impl\<close> have no instance to return, and let the first dependency of \<open>impl\<close> be
  \<open>cap\<close> (so \<open>impl\<close> requires a capability that it implements itself).  Then
  \<open>get_bean\<close> for \<open>cap\<close> returns nothing and raises nothing at any depth of
  recursion allowed, on the empty path as on any path without \<open>cap\<close>: the cycle check
  compares the requested \<open>cap\<close>, the path only ever receives \<open>impl\<close>, and the
  recursion is unbounded; in particular \<open>CircularDependencyError\<close> is never raised.
  (The model has no bound on the call stack; it is the resolver that never stops.)
\<close>

theorem capability_cycle_not_detected:
  assumes "map_of (component_configs s) cap = None"
    and "find_implementations E s cap = Inr (impl # others)"
    and "map_of (component_configs s) impl = Some cfg"
    and "\<not> (scope cfg = SINGLETON \<and> truthy E (heap s) (instance_ref cfg))"
    and "map_of (dependency_cache s) impl = Some ((x, cap) # deps)"
    and "cap \<notin> set p"
  shows "get_bean E n cap p s = None"
  using assms(6)
proof (induction n arbitrary: p)
  case 0
  then show ?case by simp
next
  case (Suc n)
  from assms(1,2,3) have lk: "lookup_config E s cap = Inr (impl, cfg)"
    by (simp add: lookup_config_def)
  from assms(1,3) have "cap \<noteq> impl" by auto
  with Suc.prems have "cap \<notin> set (p @ [impl])" by simp
  from Suc.IH[OF this] have "get_bean E n cap (p @ [impl]) s = None" .
  then have "create_instance_optimized E n impl (p @ [impl]) s = None"
    using assms(5) by (simp add: create_instance_optimized.simps)
  then have "provide_instance E n impl cfg p s = None"
    unfolding provide_instance_create[OF assms(4)] by simp
  with Suc.prems lk show ?case by (simp add: get_bean_Suc)
qed

theorem capability_cycle_not_detected_witness:
  "map_of (component_configs looping_registry) 30 = None
   \<and> find_implementations demo_classes looping_registry 30 = Inr [31]
   \<and> map_of (component_configs looping_registry) 31 = Some (unset SINGLETON False)
   \<and> map_of (dependency_cache looping_registry) 31 = Some [(''c'', 30)]
   \<and> get_bean demo_classes 1000 30 [] looping_registry = None"
proof -
  have a: "map_of (component_configs looping_registry) 30 = None"
    by (simp add: looping_registry_eq fresh_registry_def registry_state_def)
  have b: "find_implementations demo_classes looping_registry 30 = Inr (31 # [])"
    by (simp add: looping_registry_eq resolution_defs)
  have c: "map_of (component_configs looping_registry) 31 = Some (unset SINGLETON False)"
    by (simp add: looping_registry_eq fresh_registry_def registry_state_def)
  have d: "\<not> (scope (unset SINGLETON False) = SINGLETON
       \<and> truthy demo_classes (heap looping_registry) (instance_ref (unset SINGLETON False)))"
    by (simp add: unset_def truthy_def)
  have e: "map_of (dependency_cache looping_registry) 31 = Some ((''c'', 30) # [])"
    by (simp add: looping_registry_eq fresh_registry_def registry_state_def)
  have f: "(30::nat) \<notin> set []" by simp
  from capability_cycle_not_detected [OF a b c d e f, where n = 1000] a b c e
  show ?thesis by simp
qed

subsection \<open>Prototypes\<close>




subsection \<open>Clearing the caches\<close>

text \<open>
  Claim C6 fails on the code.  After a service and its repository have been registered
  and resolved, \<open>clear_cache\<close> leaves both descriptors, with their instances, and both
  metrics records where they were.
\<close>

theorem clear_cache_counterexample:
  "component_configs (clear_cache chain_resolved)
     = [(0, \<lparr>scope = SINGLETON, primary = False, instance_ref = Some 0\<rparr>),
        (1, \<lparr>scope = SINGLETON, primary = False, instance_ref = Some 1\<rparr>)]
   \<and> metrics (clear_cache chain_resolved)
     = [(0, \<lparr>creation_count = 1, total_time = 1\<rparr>),
        (1, \<lparr>creation_count = 1, total_time = 2\<rparr>)]
   \<and> dependency_cache (clear_cache chain_resolved) = []"
  by (simp add: clear_cache_def chain_resolved_def registry_state_def holding_def created_def)

text \<open>
  Claim C6 as amended.  After \<open>clear_cache\<close> the dependency-map cache is empty, and
  so are the creation-order cache and the memo table of the analyzer; the descriptor
  table of the registry, the metrics records and the constructed objects are the ones
  from before the call.
\<close>

theorem clear_cache_effect:
  "dependency_cache (clear_cache s) = []
   \<and> creation_order_cache (clear_cache s) = []
   \<and> analyze_memo (clear_cache s) = []
   \<and> component_configs (clear_cache s) = component_configs s
   \<and> metrics (clear_cache s) = metrics s
   \<and> heap (clear_cache s) = heap s"
  by (simp add: clear_cache_def)







subsection \<open>Static validation\<close>

lemma index_of_member: "x \<in> set xs \<Longrightarrow> \<exists>i. index_of xs x = Some i"
  by (induction xs) auto

lemma detect_only_circular:
  "visited = set path \<Longrightarrow>
     no_other_error (detect_circular_dependencies s component_type visited path)"
  "visited = set path \<Longrightarrow> no_other_error (detect_loop s ds visited path)"
proof (induction s component_type visited path and s ds visited path
       rule: detect_circular_dependencies_detect_loop.induct)
  case (1 s component_type visited path)
  show ?case
  proof (cases "component_type \<in> visited")
    case True
    with "1.prems" index_of_member[of component_type path] show ?thesis
      by (auto simp: no_other_error_def)
  next
    case False
    with "1.prems" have "insert component_type visited = set (path @ [component_type])"
      by auto
    from "1.IH"[OF False this] False show ?thesis by simp
  qed
next
  case (2 s visited path)
  then show ?case by (simp add: no_other_error_def)
next
  case (3 s param_type rest visited path)
  show ?case
  proof (cases "param_type \<in> set (map fst (component_configs s))")
    case True
    note ih1 = "3.IH"(1)[OF True "3.prems"]
    show ?thesis
    proof (cases "detect_circular_dependencies s param_type visited path")
      case None
      with True "3.IH"(2)[OF True None "3.prems"] show ?thesis by simp
    next
      case (Some e)
      with True ih1 show ?thesis by simp
    qed
  next
    case False
    with "3.IH"(3)[OF False "3.prems"] show ?thesis by simp
  qed
qed

lemma validate_cycles_returns: "\<exists>issues'. validate_cycles s cs issues = Inr issues'"
proof (induction cs arbitrary: issues)
  case Nil
  then show ?case by simp
next
  case (Cons c cs)
  have "no_other_error (detect_circular_dependencies s c {} [])"
    by (rule detect_only_circular(1)) simp
  then show ?case
    using Cons.IH
    by (cases "detect_circular_dependencies s c {} []")
       (auto simp: no_other_error_def split: error.splits)
qed

lemma find_implementations_outcome:
  "(\<exists>impls. find_implementations E s t = Inr impls)
   \<or> (\<exists>u. find_implementations E s t = Inl (SubclassTypeError u))"
proof (cases "find_implementations E s t")
  case (Inl e)
  with scan_implementations_Inl[of E t "map fst (component_configs s)" "[]" e]
  show ?thesis by (auto simp: find_implementations_def)
next
  case (Inr impls)
  then show ?thesis by simp
qed

lemma unresolved_dependencies_outcome:
  "(\<exists>issues'. unresolved_dependencies E s c deps issues = Inr issues')
   \<or> (\<exists>u. unresolved_dependencies E s c deps issues = Inl (SubclassTypeError u))"
proof (induction deps arbitrary: issues)
  case Nil
  then show ?case by simp
next
  case (Cons d deps)
  obtain x t where d: "d = (x, t)" by (cases d)
  show ?case
  proof (cases "t \<in> set (map fst (component_configs s))")
    case True
    with Cons.IH[of issues] d show ?thesis by simp
  next
    case False
    from find_implementations_outcome[of E s t] show ?thesis
    proof
      assume "\<exists>impls. find_implementations E s t = Inr impls"
      then obtain impls where "find_implementations E s t = Inr impls" by blast
      with False d
        Cons.IH[of "if impls = [] then issues @ [UnresolvedIssue c t] else issues"]
      show ?thesis by simp
    next
      assume "\<exists>u. find_implementations E s t = Inl (SubclassTypeError u)"
      with False d show ?thesis by auto
    qed
  qed
qed

lemma unresolved_components_outcome:
  "(\<exists>issues'. unresolved_components E s dcs issues = Inr issues')
   \<or> (\<exists>u. unresolved_components E s dcs issues = Inl (SubclassTypeError u))"
proof (induction dcs arbitrary: issues)
  case Nil
  then show ?case by simp
next
  case (Cons e dcs)
  obtain c deps where e: "e = (c, deps)" by (cases e)
  from unresolved_dependencies_outcome[of E s c deps issues] show ?case
  proof
    assume "\<exists>issues'. unresolved_dependencies E s c deps issues = Inr issues'"
    then obtain issues' where "unresolved_dependencies E s c deps issues = Inr issues'"
      by blast
    with Cons.IH[of issues'] e show ?thesis by simp
  next
    assume "\<exists>u. unresolved_dependencies E s c deps issues = Inl (SubclassTypeError u)"
    with e show ?thesis by auto
  qed
qed

lemma find_implementations_plain:
  assumes "\<forall>t. kind (E t) = PlainClass"
  shows "\<exists>impls. find_implementations E s t = Inr impls"
  using scan_implementations_plain[OF assms] by (simp add: find_implementations_def)

lemma unresolved_dependencies_plain:
  assumes "\<forall>t. kind (E t) = PlainClass"
  shows "\<exists>issues'. unresolved_dependencies E s c deps issues = Inr issues'"
proof (induction deps arbitrary: issues)
  case Nil
  then show ?case by simp
next
  case (Cons d deps)
  obtain x t where d: "d = (x, t)" by (cases d)
  from find_implementations_plain[OF assms, of s t] obtain impls where
    "find_implementations E s t = Inr impls" by blast
  with Cons.IH d show ?case by simp
qed

lemma unresolved_components_plain:
  assumes "\<forall>t. kind (E t) = PlainClass"
  shows "\<exists>issues'. unresolved_components E s dcs issues = Inr issues'"
proof (induction dcs arbitrary: issues)
  case Nil
  then show ?case by simp
next
  case (Cons e dcs)
  obtain c deps where e: "e = (c, deps)" by (cases e)
  from unresolved_dependencies_plain[OF assms, of s c deps issues] obtain issues' where
    "unresolved_dependencies E s c deps issues = Inr issues'" by blast
  with Cons.IH[of issues'] e show ?case by simp
qed

text \<open>
  Claim C8.  In every state, whatever \<open>validate_configuration\<close> ends in, the state
  after the call is the state before it: every metrics record, with its creation count
  and its total time, is unchanged, and no constructor has been called (the log of
  constructor calls and the heap are unchanged).  The call returns a list of issues or
  raises the \<open>TypeError\<close> of \<open>issubclass\<close> and nothing else (the \<open>ValueError\<close> of
  \<open>path.index\<close> cannot occur, since the visited set and the path hold the same types);
  where every type is an ordinary class, it returns a list of issues.
\<close>

theorem validate_configuration_observation_only:
  "snd (validate_configuration E s) = s
   \<and> get_metrics (snd (validate_configuration E s)) = get_metrics s
   \<and> ctor_calls (snd (validate_configuration E s)) = ctor_calls s
   \<and> heap (snd (validate_configuration E s)) = heap s
   \<and> ((\<exists>issues. validate_configuration E s = (Inr issues, s))
        \<or> (\<exists>u. validate_configuration E s = (Inl (SubclassTypeError u), s)))
   \<and> ((\<forall>t. kind (E t) = PlainClass)
        \<longrightarrow> (\<exists>issues. validate_configuration E s = (Inr issues, s)))"
proof -
  from validate_cycles_returns[of s "map fst (component_configs s)" "[]"]
  obtain issues where vc: "validate_cycles s (map fst (component_configs s)) [] = Inr issues"
    by blast
  have frame: "snd (validate_configuration E s) = s"
    by (simp add: validate_configuration_def split: sum.splits)
  have out: "(\<exists>issues. validate_configuration E s = (Inr issues, s))
        \<or> (\<exists>u. validate_configuration E s = (Inl (SubclassTypeError u), s))"
    using unresolved_components_outcome[of E s "dependency_cache s" issues] vc
    by (auto simp: validate_configuration_def)
  have plain: "(\<forall>t. kind (E t) = PlainClass)
        \<longrightarrow> (\<exists>issues. validate_configuration E s = (Inr issues, s))"
  proof
    assume "\<forall>t. kind (E t) = PlainClass"
    from unresolved_components_plain[OF this, of s "dependency_cache s" issues] vc
    show "\<exists>issues. validate_configuration E s = (Inr issues, s)"
      by (auto simp: validate_configuration_def)
  qed
  from frame out plain show ?thesis by simp
qed

theorem validate_configuration_observation_only_witness:
  "(\<forall>t. kind (plain_table t) = PlainClass)
   \<and> snd (validate_configuration plain_table chain_resolved) = chain_resolved
   \<and> get_metrics (snd (validate_configuration plain_table chain_resolved))
       = get_metrics chain_resolved
   \<and> (\<exists>issues. validate_configuration plain_table chain_resolved = (Inr issues, chain_resolved))"
proof -
  have p: "\<forall>t. kind (plain_table t) = PlainClass"
    by (simp add: plain_table_def)
  from validate_configuration_observation_only [of plain_table chain_resolved] p
  show ?thesis by simp
qed








end
